theory Spec2Isabelle
  imports Main "HOL-Library.Sublist"
begin

section \<open>CoinPay: the payment contract of \<^verbatim>\<open>contracts/CoinPay.sol\<close>\<close>

text \<open>
  The contract is embedded as functions on an explicit contract state. A \<^verbatim>\<open>require\<close>
  that fails, a checked-arithmetic panic and a failed transfer are values of the type
  \<open>error\<close>; a reverted call returns \<open>Inl\<close> of the error and no state, so the state
  before the call is the state after it. \<^verbatim>\<open>uint256\<close> values are natural numbers, and
  the checks of Solidity 0.8 arithmetic are written out. Addresses are natural numbers,
  \<open>0\<close> being \<^verbatim>\<open>address(0)\<close>. The functions are defined on all natural numbers,
  also on those beyond the types of the source, which no caller can send.

  Gas is not priced, and value reaches the contract only through \<^verbatim>\<open>createPayment\<close>
  or in the balance its address holds at deployment.
\<close>

subsection \<open>Data\<close>

type_synonym address = nat

datatype PaymentStatus = Pending | Completed | Refunded | Cancelled

text \<open>The struct \<^verbatim>\<open>Payment\<close>; its field \<^verbatim>\<open>id\<close> is \<open>payment_id\<close> here.\<close>

record Payment =
  payment_id :: nat
  payer :: address
  recipient :: address
  amount :: nat
  timestamp :: nat
  status :: PaymentStatus
  description :: string
  exists :: bool

datatype event =
    PaymentCreated nat address address nat string
  | PaymentCompleted nat address nat
  | PaymentRefunded nat address nat
  | PaymentCancelled nat address nat

text \<open>
  Every \<^verbatim>\<open>call{value: v}("")\<close> of the contract is made for one purpose: the fee leg or
  the recipient leg of a completion, a refund, a cancellation, or the emergency
  withdrawal. The legs of a payment carry its id.
\<close>

datatype purpose = FeeLeg nat | RecipientLeg nat | RefundLeg nat | CancelLeg nat | WithdrawLeg

text \<open>One \<open>error\<close> per revert reason of the source, in the order of the source.\<close>

datatype error =
    InvalidRecipient          \<comment> \<open>"CoinPay: Invalid recipient"\<close>
  | CannotPayYourself         \<comment> \<open>"CoinPay: Cannot pay yourself"\<close>
  | AmountMustBePositive      \<comment> \<open>"CoinPay: Amount must be greater than 0"\<close>
  | PaymentNotPending         \<comment> \<open>"CoinPay: Payment not pending"\<close>
  | FeeTransferFailed         \<comment> \<open>"CoinPay: Fee transfer failed"\<close>
  | PaymentTransferFailed     \<comment> \<open>"CoinPay: Payment transfer failed"\<close>
  | PaymentDoesNotExist       \<comment> \<open>"CoinPay: Payment does not exist"\<close>
  | Unauthorized              \<comment> \<open>"CoinPay: Unauthorized"\<close>
  | CannotRefund              \<comment> \<open>"CoinPay: Cannot refund this payment"\<close>
  | RefundTransferFailed      \<comment> \<open>"CoinPay: Refund transfer failed"\<close>
  | OnlyPendingCancellable    \<comment> \<open>"CoinPay: Only pending payments can be cancelled"\<close>
  | CancelTransferFailed      \<comment> \<open>"CoinPay: Cancel transfer failed"\<close>
  | NotOwner                  \<comment> \<open>"CoinPay: Not owner"\<close>
  | FeeCannotExceed10Percent  \<comment> \<open>"CoinPay: Fee cannot exceed 10%"\<close>
  | InvalidAddress            \<comment> \<open>"CoinPay: Invalid address"\<close>
  | NoBalanceToWithdraw       \<comment> \<open>"CoinPay: No balance to withdraw"\<close>
  | WithdrawalFailed          \<comment> \<open>"CoinPay: Withdrawal failed"\<close>
  | Panic                     \<comment> \<open>checked \<^verbatim>\<open>uint256\<close> arithmetic out of range\<close>
  | InsufficientFunds         \<comment> \<open>the caller cannot fund \<^verbatim>\<open>msg.value\<close>\<close>

text \<open>
  The storage of the contract, the balances of all accounts, the emitted events, and the
  trace of the value transfers the contract has made (purpose, receiver, value).
  \<open>self\<close> is \<^verbatim>\<open>address(this)\<close>.
\<close>

record state =
  self :: address
  owner :: address
  paymentCounter :: nat
  payments :: "nat \<Rightarrow> Payment"
  userPayments :: "address \<Rightarrow> nat list"
  platformFeeBps :: nat
  feeRecipient :: address
  balances :: "address \<Rightarrow> nat"
  events :: "event list"
  transfers :: "(purpose \<times> address \<times> nat) list"

text \<open>An unwritten slot of the mapping \<^verbatim>\<open>payments\<close> reads as the zero struct.\<close>

definition zero_payment :: Payment where
  "zero_payment =
     \<lparr>payment_id = 0, payer = 0, recipient = 0, amount = 0, timestamp = 0,
      status = Pending, description = [], exists = False\<rparr>"

definition constructor :: "address \<Rightarrow> address \<Rightarrow> address \<Rightarrow> (address \<Rightarrow> nat) \<Rightarrow> state" where
  "constructor this sender feeRecipient0 bal =
     \<lparr>self = this, owner = sender, paymentCounter = 0, payments = (\<lambda>_. zero_payment),
      userPayments = (\<lambda>_. []), platformFeeBps = 25, feeRecipient = feeRecipient0,
      balances = bal, events = [], transfers = []\<rparr>"

subsection \<open>Checked arithmetic\<close>

definition uint256_max :: nat where
  "uint256_max = 2 ^ 256 - 1"

definition checked_add :: "nat \<Rightarrow> nat \<Rightarrow> nat option" where
  "checked_add a b = (if a + b \<le> uint256_max then Some (a + b) else None)"

definition checked_mul :: "nat \<Rightarrow> nat \<Rightarrow> nat option" where
  "checked_mul a b = (if a * b \<le> uint256_max then Some (a * b) else None)"

definition checked_sub :: "nat \<Rightarrow> nat \<Rightarrow> nat option" where
  "checked_sub a b = (if b \<le> a then Some (a - b) else None)"

text \<open>
  Lines 147 and 148 of the source:
  \<^verbatim>\<open>feeAmount = (payment.amount * platformFeeBps) / 10000\<close> and
  \<^verbatim>\<open>recipientAmount = payment.amount - feeAmount\<close>. \<open>None\<close> is the arithmetic panic.
\<close>

definition split :: "nat \<Rightarrow> nat \<Rightarrow> (nat \<times> nat) option" where
  "split amt feeBps =
     (case checked_mul amt feeBps of
        None \<Rightarrow> None
      | Some product \<Rightarrow>
          (let feeAmount = product div 10000 in
           case checked_sub amt feeAmount of
             None \<Rightarrow> None
           | Some recipientAmount \<Rightarrow> Some (feeAmount, recipientAmount)))"

subsection \<open>State updates\<close>

definition set_status :: "nat \<Rightarrow> PaymentStatus \<Rightarrow> state \<Rightarrow> state" where
  "set_status i st s = s\<lparr>payments := (payments s)(i := (payments s i)\<lparr>status := st\<rparr>)\<rparr>"

definition emit :: "event \<Rightarrow> state \<Rightarrow> state" where
  "emit e s = s\<lparr>events := events s @ [e]\<rparr>"

text \<open>The value of a payable call moves from the caller to the contract before the body runs.\<close>

definition deposit :: "address \<Rightarrow> nat \<Rightarrow> state \<Rightarrow> state" where
  "deposit sender v s =
     (let b1 = (balances s)(sender := balances s sender - v)
      in s\<lparr>balances := b1(self s := b1 (self s) + v)\<rparr>)"

text \<open>A value transfer that goes through: the balances move and the trace records it.\<close>

definition credit :: "purpose \<Rightarrow> address \<Rightarrow> nat \<Rightarrow> state \<Rightarrow> state" where
  "credit p to v s =
     (let b1 = (balances s)(self s := balances s (self s) - v)
      in s\<lparr>balances := b1(to := b1 to + v), transfers := transfers s @ [(p, to, v)]\<rparr>)"

subsection \<open>The functions of the contract\<close>

text \<open>
  The functions take the transfer gateway as a parameter: \<open>call p to v s\<close> is
  \<^verbatim>\<open>payable(to).call{value: v}("")\<close> made in state \<open>s\<close> for purpose \<open>p\<close>; it is
  \<open>None\<close> when the call returns \<^verbatim>\<open>false\<close> and otherwise the state in which the call
  returns, after whatever the receiver did meanwhile.
\<close>

type_synonym gateway = "purpose \<Rightarrow> address \<Rightarrow> nat \<Rightarrow> state \<Rightarrow> state option"

text \<open>\<^verbatim>\<open>_completePayment\<close>, lines 137 to 165.\<close>

definition pay_fee :: "gateway \<Rightarrow> nat \<Rightarrow> nat \<Rightarrow> state \<Rightarrow> error + state" where
  "pay_fee call i feeAmount s =
     (if feeAmount > 0 \<and> feeRecipient s \<noteq> 0 then
        (case call (FeeLeg i) (feeRecipient s) feeAmount s of
           None \<Rightarrow> Inl FeeTransferFailed
         | Some s' \<Rightarrow> Inr s')
      else Inr s)"

definition pay_recipient :: "gateway \<Rightarrow> nat \<Rightarrow> nat \<Rightarrow> state \<Rightarrow> error + state" where
  "pay_recipient call i recipientAmount s =
     (case call (RecipientLeg i) (recipient (payments s i)) recipientAmount s of
        None \<Rightarrow> Inl PaymentTransferFailed
      | Some s' \<Rightarrow>
          Inr (emit (PaymentCompleted i (recipient (payments s' i)) recipientAmount) s'))"

definition completePayment :: "gateway \<Rightarrow> nat \<Rightarrow> state \<Rightarrow> error + state" where
  "completePayment call i s =
     (if status (payments s i) \<noteq> Pending then Inl PaymentNotPending
      else
        (let s1 = set_status i Completed s in
         case split (amount (payments s1 i)) (platformFeeBps s1) of
           None \<Rightarrow> Inl Panic
         | Some (feeAmount, recipientAmount) \<Rightarrow>
             (case pay_fee call i feeAmount s1 of
                Inl e \<Rightarrow> Inl e
              | Inr s2 \<Rightarrow> pay_recipient call i recipientAmount s2)))"

text \<open>
  \<^verbatim>\<open>createPayment\<close>, lines 94 to 131, run with \<^verbatim>\<open>msg.sender = sender\<close>,
  \<^verbatim>\<open>msg.value = v\<close> (already in the balance of the contract) and
  \<^verbatim>\<open>block.timestamp = now\<close>. It returns the new id with the state.
  \<open>store_payment\<close> is lines 102 to 117: the counter, the record, the owner index.
\<close>

definition store_payment :: "address \<Rightarrow> Payment \<Rightarrow> state \<Rightarrow> state" where
  "store_payment sender newPayment s =
     s\<lparr>paymentCounter := payment_id newPayment,
       payments := (payments s)(payment_id newPayment := newPayment),
       userPayments :=
         (userPayments s)(sender := userPayments s sender @ [payment_id newPayment])\<rparr>"

definition createPayment ::
  "gateway \<Rightarrow> address \<Rightarrow> nat \<Rightarrow> nat \<Rightarrow> address \<Rightarrow> string \<Rightarrow> state \<Rightarrow> error + (nat \<times> state)" where
  "createPayment call sender v now recipient0 description0 s =
     (if recipient0 = 0 then Inl InvalidRecipient
      else if recipient0 = sender then Inl CannotPayYourself
      else if \<not> v > 0 then Inl AmountMustBePositive
      else
        (case checked_add (paymentCounter s) 1 of
           None \<Rightarrow> Inl Panic
         | Some paymentId \<Rightarrow>
             (let newPayment =
                    \<lparr>payment_id = paymentId, payer = sender, recipient = recipient0,
                     amount = v, timestamp = now, status = Pending,
                     description = description0, exists = True\<rparr>;
                  s1 = store_payment sender newPayment s;
                  s2 = emit (PaymentCreated paymentId sender recipient0 v description0) s1
              in case completePayment call paymentId s2 of
                   Inl e \<Rightarrow> Inl e
                 | Inr s3 \<Rightarrow> Inr (paymentId, s3))))"

text \<open>\<^verbatim>\<open>refundPayment\<close>, lines 171 to 194.\<close>

definition refundPayment :: "gateway \<Rightarrow> address \<Rightarrow> nat \<Rightarrow> state \<Rightarrow> error + state" where
  "refundPayment call sender i s =
     (if \<not> exists (payments s i) then Inl PaymentDoesNotExist
      else if \<not> (sender = payer (payments s i) \<or> sender = owner s) then Inl Unauthorized
      else if \<not> (status (payments s i) = Pending \<or> status (payments s i) = Completed)
        then Inl CannotRefund
      else
        (let s1 = set_status i Refunded s;
             refundAmount = amount (payments s1 i)
         in case call (RefundLeg i) (payer (payments s1 i)) refundAmount s1 of
              None \<Rightarrow> Inl RefundTransferFailed
            | Some s2 \<Rightarrow>
                Inr (emit (PaymentRefunded i (payer (payments s2 i)) refundAmount) s2)))"

text \<open>\<^verbatim>\<open>cancelPayment\<close>, lines 200 to 222.\<close>

definition cancelPayment :: "gateway \<Rightarrow> address \<Rightarrow> nat \<Rightarrow> state \<Rightarrow> error + state" where
  "cancelPayment call sender i s =
     (if \<not> exists (payments s i) then Inl PaymentDoesNotExist
      else if \<not> (sender = payer (payments s i) \<or> sender = owner s) then Inl Unauthorized
      else if \<not> status (payments s i) = Pending then Inl OnlyPendingCancellable
      else
        (let s1 = set_status i Cancelled s;
             refundAmount = amount (payments s1 i)
         in case call (CancelLeg i) (payer (payments s1 i)) refundAmount s1 of
              None \<Rightarrow> Inl CancelTransferFailed
            | Some s2 \<Rightarrow>
                Inr (emit (PaymentCancelled i (payer (payments s2 i)) refundAmount) s2)))"

text \<open>The views \<^verbatim>\<open>getPayment\<close>, \<^verbatim>\<open>getUserPayments\<close> and \<^verbatim>\<open>getPaymentCount\<close>.\<close>

definition getPayment :: "nat \<Rightarrow> state \<Rightarrow> error + Payment" where
  "getPayment i s =
     (if \<not> exists (payments s i) then Inl PaymentDoesNotExist else Inr (payments s i))"

definition getUserPayments :: "address \<Rightarrow> state \<Rightarrow> nat list" where
  "getUserPayments user s = userPayments s user"

definition getPaymentCount :: "state \<Rightarrow> nat" where
  "getPaymentCount s = paymentCounter s"

text \<open>The owner's functions, lines 258 to 293.\<close>

definition updatePlatformFee :: "address \<Rightarrow> nat \<Rightarrow> state \<Rightarrow> error + state" where
  "updatePlatformFee sender newFeeBps s =
     (if sender \<noteq> owner s then Inl NotOwner
      else if \<not> newFeeBps \<le> 1000 then Inl FeeCannotExceed10Percent
      else Inr (s\<lparr>platformFeeBps := newFeeBps\<rparr>))"

definition updateFeeRecipient :: "address \<Rightarrow> address \<Rightarrow> state \<Rightarrow> error + state" where
  "updateFeeRecipient sender newFeeRecipient s =
     (if sender \<noteq> owner s then Inl NotOwner
      else if newFeeRecipient = 0 then Inl InvalidAddress
      else Inr (s\<lparr>feeRecipient := newFeeRecipient\<rparr>))"

definition emergencyWithdraw :: "gateway \<Rightarrow> address \<Rightarrow> state \<Rightarrow> error + state" where
  "emergencyWithdraw call sender s =
     (if sender \<noteq> owner s then Inl NotOwner
      else
        (let balance = balances s (self s) in
         if \<not> balance > 0 then Inl NoBalanceToWithdraw
         else
           (case call WithdrawLeg (owner s) balance s of
              None \<Rightarrow> Inl WithdrawalFailed
            | Some s' \<Rightarrow> Inr s')))"

subsection \<open>Transactions and the other accounts\<close>

datatype call =
    CreatePayment address string nat   \<comment> \<open>recipient, description, \<^verbatim>\<open>msg.value\<close>\<close>
  | RefundPayment nat
  | CancelPayment nat
  | UpdatePlatformFee nat
  | UpdateFeeRecipient address
  | EmergencyWithdraw

text \<open>The external functions, selected by the call. Only \<^verbatim>\<open>createPayment\<close> is payable.\<close>

definition dispatch :: "gateway \<Rightarrow> nat \<Rightarrow> address \<Rightarrow> call \<Rightarrow> state \<Rightarrow> error + state" where
  "dispatch gw now sender c s =
     (case c of
        CreatePayment recipient0 description0 v \<Rightarrow>
          (if balances s sender < v then Inl InsufficientFunds
           else
             (case createPayment gw sender v now recipient0 description0 (deposit sender v s) of
                Inl e \<Rightarrow> Inl e
              | Inr (paymentId, s') \<Rightarrow> Inr s'))
      | RefundPayment i \<Rightarrow> refundPayment gw sender i s
      | CancelPayment i \<Rightarrow> cancelPayment gw sender i s
      | UpdatePlatformFee newFeeBps \<Rightarrow> updatePlatformFee sender newFeeBps s
      | UpdateFeeRecipient newFeeRecipient \<Rightarrow> updateFeeRecipient sender newFeeRecipient s
      | EmergencyWithdraw \<Rightarrow> emergencyWithdraw gw sender s)"

text \<open>
  A value transfer hands control to the receiver. What the receiver's code does next is
  an \<open>action\<close>: it reverts (the transfer fails), it returns (the transfer succeeds), or
  it has some account call a function of the contract and then goes on. The function
  \<open>code\<close> of the environment chooses the action from the receiver, the gas it has left and
  the state it sees; the gas bounds the number of its actions. The calling account is
  any account: the receiver may be, or may call, any other contract.
\<close>

datatype action = Revert | Return | Invoke address call

record environment =
  block_timestamp :: nat
  code :: "address \<Rightarrow> nat \<Rightarrow> state \<Rightarrow> action"

text \<open>
  The receiver runs with gas \<open>k\<close>; \<open>ex\<close> executes a call into the contract. A call of
  the receiver that reverts leaves the state as it was, and the receiver goes on. A
  receiver that uses up its gas fails.
\<close>

fun run_receiver ::
  "environment \<Rightarrow> (address \<Rightarrow> call \<Rightarrow> state \<Rightarrow> error + state) \<Rightarrow> address \<Rightarrow> nat \<Rightarrow> state
     \<Rightarrow> state option" where
  "run_receiver env ex to 0 s = None"
| "run_receiver env ex to (Suc k) s =
     (case code env to k s of
        Revert \<Rightarrow> None
      | Return \<Rightarrow> Some s
      | Invoke sender c \<Rightarrow>
          run_receiver env ex to k (case ex sender c s of Inl e \<Rightarrow> s | Inr s' \<Rightarrow> s'))"

text \<open>
  \<^verbatim>\<open>payable(to).call{value: v}("")\<close>: it fails when the contract does not hold \<open>v\<close>, and
  when the receiver is the contract itself, whose \<^verbatim>\<open>receive\<close> reverts (line 296);
  otherwise the value moves and the receiver runs.
\<close>

definition send ::
  "environment \<Rightarrow> (address \<Rightarrow> call \<Rightarrow> state \<Rightarrow> error + state) \<Rightarrow> nat \<Rightarrow> gateway" where
  "send env ex k p to v s =
     (if balances s (self s) < v \<or> to = self s then None
      else run_receiver env ex to k (credit p to v s))"

text \<open>
  A call into the contract with \<open>n\<close> levels of nested calls left. At level \<open>0\<close> every
  value transfer fails, as a call beyond the depth limit of the machine does.
\<close>

fun exec :: "environment \<Rightarrow> nat \<Rightarrow> address \<Rightarrow> call \<Rightarrow> state \<Rightarrow> error + state" where
  "exec env 0 sender c s = dispatch (\<lambda>p to v s. None) (block_timestamp env) sender c s"
| "exec env (Suc n) sender c s =
     dispatch (send env (exec env n) n) (block_timestamp env) sender c s"

text \<open>A transaction: the state after it is the state before it when the call reverts.\<close>

definition transact :: "environment \<Rightarrow> nat \<Rightarrow> address \<Rightarrow> call \<Rightarrow> state \<Rightarrow> state" where
  "transact env n sender c s = (case exec env n sender c s of Inl e \<Rightarrow> s | Inr s' \<Rightarrow> s')"

text \<open>The gateway that \<open>exec\<close> hands to the functions at level \<open>n\<close>.\<close>

definition gateway_at :: "environment \<Rightarrow> nat \<Rightarrow> gateway" where
  "gateway_at env n =
     (case n of 0 \<Rightarrow> (\<lambda>p to v s. None) | Suc m \<Rightarrow> send env (exec env m) m)"

text \<open>An environment in which no receiver calls back into the contract.\<close>

definition no_callbacks :: "environment \<Rightarrow> bool" where
  "no_callbacks env \<longleftrightarrow> (\<forall>a k s b c. code env a k s \<noteq> Invoke b c)"

text \<open>The states the contract can be in: after deployment, and after any transaction.\<close>

inductive reachable :: "state \<Rightarrow> bool" where
  deployed: "reachable (constructor this sender feeRecipient0 bal)"
| transacted: "reachable s \<Longrightarrow> reachable (transact env n sender c s)"

subsection \<open>The trace of transfers, and what every call preserves\<close>

text \<open>The transfers made for one purpose, their total value, and the total for a payment.\<close>

definition legs :: "purpose \<Rightarrow> state \<Rightarrow> (purpose \<times> address \<times> nat) list" where
  "legs p s = filter (\<lambda>t. fst t = p) (transfers s)"

definition total :: "purpose \<Rightarrow> state \<Rightarrow> nat" where
  "total p s = sum_list (map (\<lambda>t. snd (snd t)) (legs p s))"


definition untouched :: "nat \<Rightarrow> state \<Rightarrow> bool" where
  "untouched i s \<longleftrightarrow>
     legs (FeeLeg i) s = [] \<and> legs (RecipientLeg i) s = [] \<and>
     legs (RefundLeg i) s = [] \<and> legs (CancelLeg i) s = []"

text \<open>The order in which the guards of the source let a status move.\<close>

definition advances :: "PaymentStatus \<Rightarrow> PaymentStatus \<Rightarrow> bool" where
  "advances a b \<longleftrightarrow> a = b \<or> a = Pending \<or> (a = Completed \<and> b = Refunded)"

text \<open>A payment that keeps all its fields but the status.\<close>

definition frozen :: "Payment \<Rightarrow> Payment \<Rightarrow> bool" where
  "frozen p q \<longleftrightarrow>
     payment_id q = payment_id p \<and> payer q = payer p \<and> recipient q = recipient p \<and>
     amount q = amount p \<and> timestamp q = timestamp p \<and> description q = description p \<and>
     exists q = exists p"

text \<open>
  What a call, with everything the receivers of its transfers do, may change: payments are
  only added; a payment that is there keeps its fields but the status, which only
  advances; no completion leg is added for it; the owner index and the trace only grow.
\<close>

definition evolves :: "state \<Rightarrow> state \<Rightarrow> bool" where
  "evolves s s' \<longleftrightarrow>
     self s' = self s \<and> owner s' = owner s \<and> paymentCounter s \<le> paymentCounter s' \<and>
     (\<forall>j. j \<le> paymentCounter s \<longrightarrow>
        frozen (payments s j) (payments s' j) \<and>
        advances (status (payments s j)) (status (payments s' j)) \<and>
        legs (FeeLeg j) s' = legs (FeeLeg j) s \<and>
        legs (RecipientLeg j) s' = legs (RecipientLeg j) s) \<and>
     (\<forall>a. prefix (userPayments s a) (userPayments s' a)) \<and>
     prefix (transfers s) (transfers s')"

text \<open>
  The trace of one payment agrees with its status: each completion leg at most once,
  together within the amount; nothing before the completion; the refund transfer exactly
  when the status is Refunded, the cancel transfer exactly when it is Cancelled.
\<close>

definition ledger_ok :: "state \<Rightarrow> nat \<Rightarrow> bool" where
  "ledger_ok s j \<longleftrightarrow>
     length (legs (FeeLeg j) s) \<le> 1 \<and> length (legs (RecipientLeg j) s) \<le> 1 \<and>
     total (FeeLeg j) s + total (RecipientLeg j) s \<le> amount (payments s j) \<and>
     (legs (FeeLeg j) s \<noteq> [] \<and> legs (RecipientLeg j) s \<noteq> [] \<longrightarrow>
        total (FeeLeg j) s + total (RecipientLeg j) s = amount (payments s j)) \<and>
     (status (payments s j) = Pending \<longrightarrow> untouched j s) \<and>
     (status (payments s j) = Completed \<longrightarrow>
        legs (RefundLeg j) s = [] \<and> legs (CancelLeg j) s = []) \<and>
     (status (payments s j) = Refunded \<longrightarrow>
        legs (RefundLeg j) s =
          [(RefundLeg j, payer (payments s j), amount (payments s j))] \<and>
        legs (CancelLeg j) s = []) \<and>
     (status (payments s j) = Cancelled \<longrightarrow>
        legs (CancelLeg j) s =
          [(CancelLeg j, payer (payments s j), amount (payments s j))] \<and>
        legs (FeeLeg j) s = [] \<and> legs (RecipientLeg j) s = [] \<and>
        legs (RefundLeg j) s = [])"

text \<open>
  The invariant of the ledger: the rate is capped, the payments that exist are those
  numbered from 1 to the counter, and the trace agrees with each of them. It holds after
  deployment and every call keeps it (lemmas \<open>invariant_constructor\<close>, \<open>exec_sound\<close>
  and \<open>reachable_invariant\<close> below).
\<close>

definition invariant :: "state \<Rightarrow> bool" where
  "invariant s \<longleftrightarrow>
     platformFeeBps s \<le> 1000 \<and>
     (\<forall>j. exists (payments s j) \<longleftrightarrow> 1 \<le> j \<and> j \<le> paymentCounter s) \<and>
     (\<forall>j. \<not> (1 \<le> j \<and> j \<le> paymentCounter s) \<longrightarrow> untouched j s) \<and>
     (\<forall>j. 1 \<le> j \<and> j \<le> paymentCounter s \<longrightarrow> ledger_ok s j)"

text \<open>Every payment created in the course of a call has its recipient leg when the call ends.\<close>

definition completes :: "state \<Rightarrow> state \<Rightarrow> bool" where
  "completes s s' \<longleftrightarrow>
     (\<forall>j. paymentCounter s < j \<and> j \<le> paymentCounter s' \<longrightarrow> legs (RecipientLeg j) s' \<noteq> [])"

text \<open>What is proved of every call that succeeds, and assumed of the calls nested in it.\<close>

definition sound :: "state \<Rightarrow> state \<Rightarrow> bool" where
  "sound s s' \<longleftrightarrow> evolves s s' \<and> completes s s' \<and> (invariant s \<longrightarrow> invariant s')"

text \<open>
  The state in which the receiver of the fee leg starts to run; it is the state itself
  when the fee leg is skipped (line 151).
\<close>

definition after_fee :: "nat \<Rightarrow> nat \<Rightarrow> state \<Rightarrow> state" where
  "after_fee i feeAmount s =
     (if feeAmount > 0 \<and> feeRecipient s \<noteq> 0
      then credit (FeeLeg i) (feeRecipient s) feeAmount s else s)"

definition gateway_ok :: "gateway \<Rightarrow> bool" where
  "gateway_ok gw \<longleftrightarrow> (\<forall>p to v s s'. gw p to v s = Some s' \<longrightarrow> sound (credit p to v s) s')"

definition executor_ok :: "(address \<Rightarrow> call \<Rightarrow> state \<Rightarrow> error + state) \<Rightarrow> bool" where
  "executor_ok ex \<longleftrightarrow> (\<forall>sender c s s'. ex sender c s = Inr s' \<longrightarrow> sound s s')"

subsection \<open>Scenarios\<close>

text \<open>
  The contract is account 100, deployed by account 1; account 10 holds 50000 and pays
  account 11. In \<open>quiet\<close> no receiver calls back; in \<open>rejecting\<close> account 11 refuses
  value; in \<open>reentrant\<close> account 10, when it receives value, first tries
  \<^verbatim>\<open>refundPayment(2)\<close> again.
\<close>

definition quiet :: environment where
  "quiet = \<lparr>block_timestamp = 1700000000, code = (\<lambda>a k s. Return)\<rparr>"

definition rejecting :: environment where
  "rejecting =
     \<lparr>block_timestamp = 1700000000, code = (\<lambda>a k s. if a = 11 then Revert else Return)\<rparr>"

definition reentrant :: environment where
  "reentrant =
     \<lparr>block_timestamp = 1700000000,
      code = (\<lambda>a k s. if a = 10 \<and> k = 1 then Invoke 10 (RefundPayment 2) else Return)\<rparr>"

definition funds :: "address \<Rightarrow> nat" where
  "funds a = (if a = 10 then 50000 else 0)"

text \<open>Deployed with fee recipient 2; then the payment of 1000 of the specification.\<close>

definition demo0 :: state where
  "demo0 = constructor 100 1 2 funds"

definition demo1 :: state where
  "demo1 = transact quiet 2 10 (CreatePayment 11 [] 1000) demo0"

text \<open>
  Deployed with the null fee recipient; a payment of 10000, whose fee of 25 stays in the
  contract; a payment of 20; the refund of the second payment.
\<close>

definition nofee0 :: state where
  "nofee0 = constructor 100 1 0 funds"

definition nofee1 :: state where
  "nofee1 = transact quiet 2 10 (CreatePayment 11 [] 10000) nofee0"

definition nofee2 :: state where
  "nofee2 = transact quiet 2 10 (CreatePayment 11 [] 20) nofee1"

definition nofee3 :: state where
  "nofee3 = transact quiet 2 10 (RefundPayment 2) nofee2"

text \<open>A state with one pending payment of 30, held by the contract.\<close>

definition pending1 :: state where
  "pending1 =
     store_payment 10
       \<lparr>payment_id = 1, payer = 10, recipient = 11, amount = 30, timestamp = 1700000000,
        status = Pending, description = [], exists = True\<rparr>
       (constructor 100 1 2 (\<lambda>a. if a = 100 then 30 else 0))"

text \<open>
  The state in the middle of \<^verbatim>\<open>createPayment\<close> for the payment of 1000, before
  \<^verbatim>\<open>_completePayment\<close> runs.
\<close>

definition escrow1 :: state where
  "escrow1 =
     emit (PaymentCreated 1 10 11 1000 [])
       (store_payment 10
          \<lparr>payment_id = 1, payer = 10, recipient = 11, amount = 1000,
           timestamp = 1700000000, status = Pending, description = [], exists = True\<rparr>
          (deposit 10 1000 demo0))"

text \<open>
  Deployed with fee recipient 2 at an address that already holds 5000; the payment of
  1000; its refund.
\<close>

definition funded0 :: state where
  "funded0 = constructor 100 1 2 (\<lambda>a. if a = 10 then 50000 else if a = 100 then 5000 else 0)"

definition funded1 :: state where
  "funded1 = transact quiet 2 10 (CreatePayment 11 [] 1000) funded0"

definition funded2 :: state where
  "funded2 = transact quiet 2 10 (RefundPayment 1) funded1"

text \<open>The owner raises the fee to 1000 basis points; then the payment of 1000.\<close>

definition tenth0 :: state where
  "tenth0 = transact quiet 2 1 (UpdatePlatformFee 1000) demo0"

definition tenth1 :: state where
  "tenth1 = transact quiet 2 10 (CreatePayment 11 [] 1000) tenth0"

text \<open>The pending payment cancelled; the second payment refunded with the payer calling back.\<close>

definition cancelled1 :: state where
  "cancelled1 = transact quiet 2 10 (CancelPayment 1) pending1"

definition nofee3r :: state where
  "nofee3r = transact reentrant 3 10 (RefundPayment 2) nofee2"


text \<open>
  Account 11, when it receives value, has account 10 call \<^verbatim>\<open>refundPayment(2)\<close>; with
  it, the second payment of 20 under the null fee recipient.
\<close>

definition refunding :: environment where
  "refunding =
     \<lparr>block_timestamp = 1700000000,
      code = (\<lambda>a k s. if a = 11 \<and> k = 1 then Invoke 10 (RefundPayment 2) else Return)\<rparr>"

definition swift2 :: state where
  "swift2 = transact refunding 3 10 (CreatePayment 11 [] 20) nofee1"

section \<open>Basic facts\<close>

lemma set_status_fields [simp]:
  "self (set_status i st s) = self s"
  "owner (set_status i st s) = owner s"
  "paymentCounter (set_status i st s) = paymentCounter s"
  "userPayments (set_status i st s) = userPayments s"
  "platformFeeBps (set_status i st s) = platformFeeBps s"
  "feeRecipient (set_status i st s) = feeRecipient s"
  "balances (set_status i st s) = balances s"
  "events (set_status i st s) = events s"
  "transfers (set_status i st s) = transfers s"
  "payments (set_status i st s) j = (if j = i then (payments s i)\<lparr>status := st\<rparr> else payments s j)"
  by (simp_all add: set_status_def)

lemma emit_fields [simp]:
  "self (emit e s) = self s"
  "owner (emit e s) = owner s"
  "paymentCounter (emit e s) = paymentCounter s"
  "payments (emit e s) = payments s"
  "userPayments (emit e s) = userPayments s"
  "platformFeeBps (emit e s) = platformFeeBps s"
  "feeRecipient (emit e s) = feeRecipient s"
  "balances (emit e s) = balances s"
  "events (emit e s) = events s @ [e]"
  "transfers (emit e s) = transfers s"
  by (simp_all add: emit_def)

lemma credit_fields [simp]:
  "self (credit p to v s) = self s"
  "owner (credit p to v s) = owner s"
  "paymentCounter (credit p to v s) = paymentCounter s"
  "payments (credit p to v s) = payments s"
  "userPayments (credit p to v s) = userPayments s"
  "platformFeeBps (credit p to v s) = platformFeeBps s"
  "feeRecipient (credit p to v s) = feeRecipient s"
  "events (credit p to v s) = events s"
  "transfers (credit p to v s) = transfers s @ [(p, to, v)]"
  by (simp_all add: credit_def Let_def)

lemma deposit_fields [simp]:
  "self (deposit a v s) = self s"
  "owner (deposit a v s) = owner s"
  "paymentCounter (deposit a v s) = paymentCounter s"
  "payments (deposit a v s) = payments s"
  "userPayments (deposit a v s) = userPayments s"
  "platformFeeBps (deposit a v s) = platformFeeBps s"
  "feeRecipient (deposit a v s) = feeRecipient s"
  "events (deposit a v s) = events s"
  "transfers (deposit a v s) = transfers s"
  by (simp_all add: deposit_def Let_def)

lemma untouched_same_trace: "transfers s' = transfers s \<Longrightarrow> untouched i s' = untouched i s"
  by (simp add: untouched_def legs_def)

lemma legs_credit:
  "legs p (credit q to v s) = (if q = p then legs p s @ [(q, to, v)] else legs p s)"
  by (simp add: legs_def)

lemma total_credit:
  "total p (credit q to v s) = (if q = p then total p s + v else total p s)"
  by (simp add: total_def legs_credit)

lemma advances_refl [simp]: "advances a a"
  by (simp add: advances_def)

lemma advances_trans: "advances a b \<Longrightarrow> advances b c \<Longrightarrow> advances a c"
  by (auto simp: advances_def)

lemma frozen_refl [simp]: "frozen p p"
  by (simp add: frozen_def)

lemma frozen_trans: "frozen p q \<Longrightarrow> frozen q r \<Longrightarrow> frozen p r"
  by (simp add: frozen_def)

lemma frozen_status [simp]: "frozen p (q\<lparr>status := st\<rparr>) = frozen p q"
  by (simp add: frozen_def)

lemma evolves_refl [simp]: "evolves s s"
  by (simp add: evolves_def)

lemma evolves_trans:
  assumes "evolves s t" and "evolves t u"
  shows "evolves s u"
proof -
  have c: "paymentCounter s \<le> paymentCounter t" "paymentCounter t \<le> paymentCounter u"
    using assms by (simp_all add: evolves_def)
  have old: "frozen (payments s j) (payments u j) \<and>
        advances (status (payments s j)) (status (payments u j)) \<and>
        legs (FeeLeg j) u = legs (FeeLeg j) s \<and>
        legs (RecipientLeg j) u = legs (RecipientLeg j) s" if j: "j \<le> paymentCounter s" for j
  proof -
    from j c have jt: "j \<le> paymentCounter t" by simp
    from assms(1) j have a: "frozen (payments s j) (payments t j)"
        "advances (status (payments s j)) (status (payments t j))"
        "legs (FeeLeg j) t = legs (FeeLeg j) s" "legs (RecipientLeg j) t = legs (RecipientLeg j) s"
      unfolding evolves_def by blast+
    from assms(2) jt have b: "frozen (payments t j) (payments u j)"
        "advances (status (payments t j)) (status (payments u j))"
        "legs (FeeLeg j) u = legs (FeeLeg j) t" "legs (RecipientLeg j) u = legs (RecipientLeg j) t"
      unfolding evolves_def by blast+
    from a b show ?thesis by (auto intro: advances_trans frozen_trans)
  qed
  have up: "prefix (userPayments s a) (userPayments u a)" for a
    using assms by (meson evolves_def prefix_order.order_trans)
  have tr: "prefix (transfers s) (transfers u)"
    using assms by (meson evolves_def prefix_order.order_trans)
  have "self u = self s" "owner u = owner s" using assms by (simp_all add: evolves_def)
  moreover from c have "paymentCounter s \<le> paymentCounter u" by simp
  ultimately show ?thesis using old up tr unfolding evolves_def by blast
qed

lemma completes_trans:
  assumes "completes s t" and "completes t u" and "evolves t u"
  shows "completes s u"
  unfolding completes_def
proof (intro allI impI)
  fix j
  assume j: "paymentCounter s < j \<and> j \<le> paymentCounter u"
  show "legs (RecipientLeg j) u \<noteq> []"
  proof (cases "j \<le> paymentCounter t")
    case True
    with j assms(1) have "legs (RecipientLeg j) t \<noteq> []" by (simp add: completes_def)
    moreover from True assms(3) have "legs (RecipientLeg j) u = legs (RecipientLeg j) t"
      unfolding evolves_def by blast
    ultimately show ?thesis by simp
  next
    case False
    with j assms(2) show ?thesis by (simp add: completes_def)
  qed
qed

lemma completes_same_counter: "paymentCounter t = paymentCounter s \<Longrightarrow> completes s t"
  by (auto simp: completes_def)

lemma sound_refl [simp]: "sound s s"
  by (simp add: sound_def completes_same_counter)

lemma sound_trans: "sound s t \<Longrightarrow> sound t u \<Longrightarrow> sound s u"
  unfolding sound_def by (blast intro: evolves_trans completes_trans)

lemma sound_same_counter:
  assumes "evolves s t" and "paymentCounter t = paymentCounter s"
    and "invariant s \<longrightarrow> invariant t"
  shows "sound s t"
  using assms by (simp add: sound_def completes_same_counter)

lemma evolves_same:
  assumes "evolves s t" and "self t' = self t" "owner t' = owner t" "paymentCounter t' = paymentCounter t"
    "payments t' = payments t" "userPayments t' = userPayments t" "transfers t' = transfers t"
  shows "evolves s t'"
proof -
  have "legs p t' = legs p t" for p using assms by (simp add: legs_def)
  then show ?thesis using assms unfolding evolves_def by simp
qed

lemma evolves_emit: "evolves s t \<Longrightarrow> evolves s (emit e t)"
  by (erule evolves_same) simp_all

lemma evolves_deposit: "evolves s t \<Longrightarrow> evolves s (deposit a v t)"
  by (erule evolves_same) simp_all

lemma evolves_set_status:
  assumes "evolves s t" and "advances (status (payments t i)) st"
  shows "evolves s (set_status i st t)"
proof -
  have "frozen (payments s j) (payments (set_status i st t) j) \<and>
        advances (status (payments s j)) (status (payments (set_status i st t) j))"
    if j: "j \<le> paymentCounter s" for j
  proof -
    from assms(1) j have a: "frozen (payments s j) (payments t j)"
        "advances (status (payments s j)) (status (payments t j))"
      unfolding evolves_def by blast+
    with assms(2) show ?thesis by (auto intro: advances_trans)
  qed
  moreover have "legs p (set_status i st t) = legs p t" for p by (simp add: legs_def)
  ultimately show ?thesis using assms(1) unfolding evolves_def by simp
qed

lemma evolves_credit:
  assumes "evolves s t" and "\<forall>j\<le>paymentCounter s. p \<noteq> FeeLeg j \<and> p \<noteq> RecipientLeg j"
  shows "evolves s (credit p to v t)"
  using assms unfolding evolves_def by (auto simp: legs_credit)

lemma legs_set_status [simp]: "legs p (set_status i st s) = legs p s"
  by (simp add: legs_def)

lemma legs_emit [simp]: "legs p (emit e s) = legs p s"
  by (simp add: legs_def)

lemma legs_deposit [simp]: "legs p (deposit a v s) = legs p s"
  by (simp add: legs_def)

lemma total_set_status [simp]: "total p (set_status i st s) = total p s"
  by (simp add: total_def)

lemma total_emit [simp]: "total p (emit e s) = total p s"
  by (simp add: total_def)

lemma total_deposit [simp]: "total p (deposit a v s) = total p s"
  by (simp add: total_def)

lemma untouched_set_status [simp]: "untouched j (set_status i st s) = untouched j s"
  by (simp add: untouched_def)

lemma ledger_ok_same:
  "transfers s' = transfers s \<Longrightarrow> payments s' j = payments s j \<Longrightarrow> ledger_ok s' j = ledger_ok s j"
  by (simp add: ledger_ok_def untouched_def legs_def total_def)

lemma invariant_same:
  assumes "transfers s' = transfers s" and "payments s' = payments s"
    and "paymentCounter s' = paymentCounter s" and "platformFeeBps s' = platformFeeBps s"
  shows "invariant s' = invariant s"
proof -
  have "ledger_ok s' j = ledger_ok s j" for j using assms by (intro ledger_ok_same) simp_all
  moreover have "untouched j s' = untouched j s" for j
    using assms by (intro untouched_same_trace) simp
  ultimately show ?thesis using assms by (simp add: invariant_def)
qed

lemma invariant_emit [simp]: "invariant (emit e s) = invariant s"
  by (intro invariant_same) simp_all

lemma invariant_deposit [simp]: "invariant (deposit a v s) = invariant s"
  by (intro invariant_same) simp_all

lemma invariant_feeRecipient [simp]: "invariant (s\<lparr>feeRecipient := a\<rparr>) = invariant s"
  by (intro invariant_same) simp_all

lemma untouched_credit:
  "untouched j (credit p to v s) \<longleftrightarrow>
     untouched j s \<and> p \<noteq> FeeLeg j \<and> p \<noteq> RecipientLeg j \<and> p \<noteq> RefundLeg j \<and> p \<noteq> CancelLeg j"
  by (auto simp: untouched_def legs_credit)

lemma ledger_ok_credit_other:
  assumes "p \<noteq> FeeLeg j" "p \<noteq> RecipientLeg j" "p \<noteq> RefundLeg j" "p \<noteq> CancelLeg j"
  shows "ledger_ok (credit p to v s) j = ledger_ok s j"
  using assms by (simp add: ledger_ok_def untouched_credit legs_credit total_credit)

lemma ledger_ok_set_status_other:
  "j \<noteq> i \<Longrightarrow> ledger_ok (set_status i st s) j = ledger_ok s j"
  by (intro ledger_ok_same) simp_all

lemma invariant_withdraw: "invariant s \<Longrightarrow> invariant (credit WithdrawLeg to v s)"
  by (simp add: invariant_def ledger_ok_credit_other untouched_credit)

lemma invariant_refund_step:
  assumes inv: "invariant s" and ex: "exists (payments s i)"
    and st: "status (payments s i) = Pending \<or> status (payments s i) = Completed"
  shows "invariant (credit (RefundLeg i) (payer (payments s i)) (amount (payments s i))
           (set_status i Refunded s))"
    (is "invariant ?t")
proof -
  from inv ex have range: "1 \<le> i" "i \<le> paymentCounter s" by (simp_all add: invariant_def)
  have 1: "platformFeeBps ?t \<le> 1000" using inv by (simp add: invariant_def)
  have 2: "exists (payments ?t j) \<longleftrightarrow> 1 \<le> j \<and> j \<le> paymentCounter ?t" for j
    using inv by (simp add: invariant_def)
  have 3: "untouched j ?t" if "\<not> (1 \<le> j \<and> j \<le> paymentCounter ?t)" for j
  proof -
    from that range have "j \<noteq> i" by auto
    moreover from that inv have "untouched j s" by (simp add: invariant_def)
    ultimately show ?thesis
      by (simp add: untouched_credit)
  qed
  have 4: "ledger_ok ?t j" if j: "1 \<le> j \<and> j \<le> paymentCounter ?t" for j
  proof (cases "j = i")
    case False
    from j inv have "ledger_ok s j" by (simp add: invariant_def)
    with False show ?thesis by (simp add: ledger_ok_credit_other ledger_ok_set_status_other)
  next
    case True
    from range inv have "ledger_ok s i" by (simp add: invariant_def)
    then show ?thesis using st unfolding True
      by (auto simp: ledger_ok_def untouched_def legs_credit total_credit)
  qed
  from 1 2 3 4 show ?thesis unfolding invariant_def by blast
qed

lemma invariant_cancel_step:
  assumes inv: "invariant s" and ex: "exists (payments s i)"
    and st: "status (payments s i) = Pending"
  shows "invariant (credit (CancelLeg i) (payer (payments s i)) (amount (payments s i))
           (set_status i Cancelled s))"
    (is "invariant ?t")
proof -
  from inv ex have range: "1 \<le> i" "i \<le> paymentCounter s" by (simp_all add: invariant_def)
  have 1: "platformFeeBps ?t \<le> 1000" using inv by (simp add: invariant_def)
  have 2: "exists (payments ?t j) \<longleftrightarrow> 1 \<le> j \<and> j \<le> paymentCounter ?t" for j
    using inv by (simp add: invariant_def)
  have 3: "untouched j ?t" if "\<not> (1 \<le> j \<and> j \<le> paymentCounter ?t)" for j
  proof -
    from that range have "j \<noteq> i" by auto
    moreover from that inv have "untouched j s" by (simp add: invariant_def)
    ultimately show ?thesis
      by (simp add: untouched_credit)
  qed
  have 4: "ledger_ok ?t j" if j: "1 \<le> j \<and> j \<le> paymentCounter ?t" for j
  proof (cases "j = i")
    case False
    from j inv have "ledger_ok s j" by (simp add: invariant_def)
    with False show ?thesis by (simp add: ledger_ok_credit_other ledger_ok_set_status_other)
  next
    case True
    from range inv have "ledger_ok s i" by (simp add: invariant_def)
    then show ?thesis using st unfolding True
      by (auto simp: ledger_ok_def untouched_def legs_credit total_credit)
  qed
  from 1 2 3 4 show ?thesis unfolding invariant_def by blast
qed

lemma refundPayment_sound:
  assumes gw: "gateway_ok gw" and run: "refundPayment gw sender i s = Inr s'"
  shows "sound s s'"
proof -
  let ?t = "credit (RefundLeg i) (payer (payments s i)) (amount (payments s i)) (set_status i Refunded s)"
  from run have ex: "exists (payments s i)"
    and st: "status (payments s i) = Pending \<or> status (payments s i) = Completed"
    by (auto simp: refundPayment_def split: if_splits)
  from run ex st obtain s2 where
    call: "gw (RefundLeg i) (payer (payments s i)) (amount (payments s i)) (set_status i Refunded s) = Some s2"
    and s': "s' = emit (PaymentRefunded i (payer (payments s2 i)) (amount (payments s i))) s2"
    by (auto simp: refundPayment_def Let_def split: if_splits option.splits)
  from st have "advances (status (payments s i)) Refunded" by (auto simp: advances_def)
  then have "evolves s (set_status i Refunded s)" by (intro evolves_set_status) simp_all
  then have "evolves s ?t" by (intro evolves_credit) simp_all
  moreover have "invariant s \<longrightarrow> invariant ?t" using invariant_refund_step ex st by blast
  ultimately have a: "sound s ?t" by (intro sound_same_counter) simp_all
  from gw call have b: "sound ?t s2" by (simp add: gateway_ok_def)
  have c: "sound s2 s'" unfolding s' by (intro sound_same_counter evolves_emit) simp_all
  from a b c show ?thesis by (blast intro: sound_trans)
qed

lemma cancelPayment_sound:
  assumes gw: "gateway_ok gw" and run: "cancelPayment gw sender i s = Inr s'"
  shows "sound s s'"
proof -
  let ?t = "credit (CancelLeg i) (payer (payments s i)) (amount (payments s i)) (set_status i Cancelled s)"
  from run have ex: "exists (payments s i)"
    and st: "status (payments s i) = Pending"
    by (auto simp: cancelPayment_def split: if_splits)
  from run ex st obtain s2 where
    call: "gw (CancelLeg i) (payer (payments s i)) (amount (payments s i)) (set_status i Cancelled s) = Some s2"
    and s': "s' = emit (PaymentCancelled i (payer (payments s2 i)) (amount (payments s i))) s2"
    by (auto simp: cancelPayment_def Let_def split: if_splits option.splits)
  from st have "advances (status (payments s i)) Cancelled" by (auto simp: advances_def)
  then have "evolves s (set_status i Cancelled s)" by (intro evolves_set_status) simp_all
  then have "evolves s ?t" by (intro evolves_credit) simp_all
  moreover have "invariant s \<longrightarrow> invariant ?t" using invariant_cancel_step ex st by blast
  ultimately have a: "sound s ?t" by (intro sound_same_counter) simp_all
  from gw call have b: "sound ?t s2" by (simp add: gateway_ok_def)
  have c: "sound s2 s'" unfolding s' by (intro sound_same_counter evolves_emit) simp_all
  from a b c show ?thesis by (blast intro: sound_trans)
qed

lemma split_Some:
  assumes "split amt bps = Some (f, r)"
  shows "f = amt * bps div 10000" and "r = amt - f" and "f \<le> amt" and "f + r = amt"
    and "amt * bps \<le> uint256_max"
  using assms
  by (auto simp: split_def checked_mul_def checked_sub_def Let_def split: if_splits)

lemma pay_fee_Inr:
  assumes "pay_fee gw i f s = Inr s2"
  shows "(0 < f \<and> feeRecipient s \<noteq> 0 \<and> gw (FeeLeg i) (feeRecipient s) f s = Some s2) \<or>
         (\<not> (0 < f \<and> feeRecipient s \<noteq> 0) \<and> s2 = s)"
  using assms by (auto simp: pay_fee_def split: if_splits option.splits)

lemma completePayment_Inr:
  assumes "completePayment gw i s = Inr s'"
  shows "status (payments s i) = Pending \<and>
     (\<exists>f r s2 s3.
        split (amount (payments s i)) (platformFeeBps s) = Some (f, r) \<and>
        pay_fee gw i f (set_status i Completed s) = Inr s2 \<and>
        gw (RecipientLeg i) (recipient (payments s2 i)) r s2 = Some s3 \<and>
        s' = emit (PaymentCompleted i (recipient (payments s3 i)) r) s3)"
  using assms
  by (auto simp: completePayment_def pay_recipient_def Let_def
      split: if_splits option.splits sum.splits prod.splits)

lemma total_Nil: "legs p s = [] \<Longrightarrow> total p s = 0"
  by (simp add: total_def)

lemma invariant_complete_status:
  assumes inv: "invariant s" and i: "1 \<le> i" "i \<le> paymentCounter s"
    and st: "status (payments s i) = Pending"
  shows "invariant (set_status i Completed s)" (is "invariant ?t")
proof -
  have 1: "platformFeeBps ?t \<le> 1000" using inv by (simp add: invariant_def)
  have 2: "exists (payments ?t j) \<longleftrightarrow> 1 \<le> j \<and> j \<le> paymentCounter ?t" for j
    using inv by (simp add: invariant_def)
  have 3: "untouched j ?t" if "\<not> (1 \<le> j \<and> j \<le> paymentCounter ?t)" for j
    using that inv by (simp add: invariant_def)
  have 4: "ledger_ok ?t j" if j: "1 \<le> j \<and> j \<le> paymentCounter ?t" for j
  proof (cases "j = i")
    case False
    from j inv have "ledger_ok s j" by (simp add: invariant_def)
    with False show ?thesis by (simp add: ledger_ok_set_status_other)
  next
    case True
    from i inv have "ledger_ok s i" by (simp add: invariant_def)
    then show ?thesis using st unfolding True
      by (auto simp: ledger_ok_def untouched_def)
  qed
  from 1 2 3 4 show ?thesis unfolding invariant_def by blast
qed

lemma invariant_credit_leg:
  assumes inv: "invariant s" and i: "1 \<le> i" "i \<le> paymentCounter s"
    and ok: "ledger_ok (credit p to v s) i"
    and p: "p = FeeLeg i \<or> p = RecipientLeg i"
  shows "invariant (credit p to v s)" (is "invariant ?t")
proof -
  have 1: "platformFeeBps ?t \<le> 1000" using inv by (simp add: invariant_def)
  have 2: "exists (payments ?t j) \<longleftrightarrow> 1 \<le> j \<and> j \<le> paymentCounter ?t" for j
    using inv by (simp add: invariant_def)
  have 3: "untouched j ?t" if "\<not> (1 \<le> j \<and> j \<le> paymentCounter ?t)" for j
  proof -
    from that i have "j \<noteq> i" by auto
    moreover from that inv have "untouched j s" by (simp add: invariant_def)
    ultimately show ?thesis using p by (auto simp: untouched_credit)
  qed
  have 4: "ledger_ok ?t j" if j: "1 \<le> j \<and> j \<le> paymentCounter ?t" for j
  proof (cases "j = i")
    case False
    from j inv have "ledger_ok s j" by (simp add: invariant_def)
    with False p show ?thesis by (auto simp: ledger_ok_credit_other)
  next
    case True
    with ok show ?thesis by simp
  qed
  from 1 2 3 4 show ?thesis unfolding invariant_def by blast
qed

lemma ledger_ok_fee_leg:
  assumes "untouched i s" and "status (payments s i) = Completed" and "f \<le> amount (payments s i)"
  shows "ledger_ok (credit (FeeLeg i) to f s) i"
  using assms by (simp add: ledger_ok_def untouched_def legs_credit total_credit total_Nil)

lemma ledger_ok_recipient_leg:
  assumes ok: "ledger_ok s i" and none: "legs (RecipientLeg i) s = []"
    and st: "status (payments s i) = Completed \<or> status (payments s i) = Refunded"
    and le: "total (FeeLeg i) s + r \<le> amount (payments s i)"
    and eq: "legs (FeeLeg i) s \<noteq> [] \<longrightarrow> total (FeeLeg i) s + r = amount (payments s i)"
  shows "ledger_ok (credit (RecipientLeg i) to r s) i"
  using assms by (auto simp: ledger_ok_def untouched_def legs_credit total_credit total_Nil)

section \<open>Completion\<close>

lemma pay_fee_sound:
  assumes "gateway_ok gw" and "pay_fee gw i f s = Inr s2"
  shows "sound (after_fee i f s) s2"
proof (cases "0 < f \<and> feeRecipient s \<noteq> 0")
  case True
  with pay_fee_Inr [OF assms(2)] have "gw (FeeLeg i) (feeRecipient s) f s = Some s2" by auto
  with assms(1) have "sound (credit (FeeLeg i) (feeRecipient s) f s) s2"
    by (simp add: gateway_ok_def)
  with True show ?thesis by (auto simp: after_fee_def)
next
  case False
  with pay_fee_Inr [OF assms(2)] have "s2 = s" by auto
  with False show ?thesis by (auto simp: after_fee_def)
qed

lemma after_fee_fields [simp]:
  "self (after_fee i f s) = self s"
  "owner (after_fee i f s) = owner s"
  "paymentCounter (after_fee i f s) = paymentCounter s"
  "payments (after_fee i f s) = payments s"
  "userPayments (after_fee i f s) = userPayments s"
  "platformFeeBps (after_fee i f s) = platformFeeBps s"
  "feeRecipient (after_fee i f s) = feeRecipient s"
  "events (after_fee i f s) = events s"
  by (simp_all add: after_fee_def)

lemma legs_after_fee:
  "legs p (after_fee i f s) =
     (if p = FeeLeg i \<and> 0 < f \<and> feeRecipient s \<noteq> 0
      then legs p s @ [(FeeLeg i, feeRecipient s, f)] else legs p s)"
  by (auto simp: after_fee_def legs_credit)

lemma evolves_after_fee:
  assumes "evolves s0 s" and "paymentCounter s0 < i"
  shows "evolves s0 (after_fee i f s)"
proof (cases "0 < f \<and> feeRecipient s \<noteq> 0")
  case True
  have "evolves s0 (credit (FeeLeg i) (feeRecipient s) f s)"
    using assms by (intro evolves_credit) auto
  with True show ?thesis by (auto simp: after_fee_def)
next
  case False
  with assms(1) show ?thesis by (auto simp: after_fee_def)
qed

lemma invariant_after_fee:
  assumes inv: "invariant s" and i: "1 \<le> i" "i \<le> paymentCounter s"
    and un: "untouched i s" and st: "status (payments s i) = Completed"
    and f: "f \<le> amount (payments s i)"
  shows "invariant (after_fee i f s)"
proof (cases "0 < f \<and> feeRecipient s \<noteq> 0")
  case True
  have "ledger_ok (credit (FeeLeg i) (feeRecipient s) f s) i"
    using un st f by (rule ledger_ok_fee_leg)
  with inv i have "invariant (credit (FeeLeg i) (feeRecipient s) f s)"
    by (intro invariant_credit_leg) simp_all
  with True show ?thesis by (auto simp: after_fee_def)
next
  case False
  with inv show ?thesis by (auto simp: after_fee_def)
qed

text \<open>The course of a completion that succeeds, for the payment created last.\<close>

lemma completePayment_steps:
  assumes gw: "gateway_ok gw" and run: "completePayment gw i s = Inr s'"
    and i: "i = paymentCounter s"
  obtains f r s2 s3 where
    "status (payments s i) = Pending"
    "split (amount (payments s i)) (platformFeeBps s) = Some (f, r)"
    "pay_fee gw i f (set_status i Completed s) = Inr s2"
    "sound (after_fee i f (set_status i Completed s)) s2"
    "gw (RecipientLeg i) (recipient (payments s i)) r s2 = Some s3"
    "sound (credit (RecipientLeg i) (recipient (payments s i)) r s2) s3"
    "s' = emit (PaymentCompleted i (recipient (payments s i)) r) s3"
proof -
  from completePayment_Inr [OF run] obtain f r s2 s3 where
    st: "status (payments s i) = Pending"
    and sp: "split (amount (payments s i)) (platformFeeBps s) = Some (f, r)"
    and fee: "pay_fee gw i f (set_status i Completed s) = Inr s2"
    and rec: "gw (RecipientLeg i) (recipient (payments s2 i)) r s2 = Some s3"
    and s': "s' = emit (PaymentCompleted i (recipient (payments s3 i)) r) s3"
    by blast
  let ?m = "after_fee i f (set_status i Completed s)"
  let ?t = "credit (RecipientLeg i) (recipient (payments s2 i)) r s2"
  from gw fee have m_s2: "sound ?m s2" by (rule pay_fee_sound)
  then have "evolves ?m s2" by (simp add: sound_def)
  then have fz2: "frozen (payments ?m i) (payments s2 i)" and c2: "i \<le> paymentCounter s2"
    unfolding evolves_def using i by auto
  then have r2: "recipient (payments s2 i) = recipient (payments s i)"
    by (simp add: frozen_def)
  from gw rec have t_s3: "sound ?t s3" by (simp add: gateway_ok_def)
  then have "evolves ?t s3" by (simp add: sound_def)
  then have "frozen (payments ?t i) (payments s3 i)"
    unfolding evolves_def using c2 by auto
  with r2 have r3: "recipient (payments s3 i) = recipient (payments s i)"
    by (simp add: frozen_def)
  show thesis
    using that [OF st sp fee m_s2] rec t_s3 s' unfolding r2 r3 by blast
qed

text \<open>What a completion leaves in the trace and in the record of its payment.\<close>

lemma completePayment_trace:
  assumes gw: "gateway_ok gw" and run: "completePayment gw i s = Inr s'"
    and i: "i = paymentCounter s"
  shows "\<exists>f r. split (amount (payments s i)) (platformFeeBps s) = Some (f, r) \<and>
     legs (FeeLeg i) s' =
       legs (FeeLeg i) s @
         (if 0 < f \<and> feeRecipient s \<noteq> 0 then [(FeeLeg i, feeRecipient s, f)] else []) \<and>
     legs (RecipientLeg i) s' =
       legs (RecipientLeg i) s @ [(RecipientLeg i, recipient (payments s i), r)] \<and>
     frozen (payments s i) (payments s' i) \<and>
     (status (payments s' i) = Completed \<or> status (payments s' i) = Refunded) \<and>
     paymentCounter s \<le> paymentCounter s' \<and>
     (\<forall>a. prefix (userPayments s a) (userPayments s' a))"
proof -
  obtain f r s2 s3 where
    st: "status (payments s i) = Pending"
    and sp: "split (amount (payments s i)) (platformFeeBps s) = Some (f, r)"
    and "pay_fee gw i f (set_status i Completed s) = Inr s2"
    and m_s2: "sound (after_fee i f (set_status i Completed s)) s2"
    and "gw (RecipientLeg i) (recipient (payments s i)) r s2 = Some s3"
    and t_s3: "sound (credit (RecipientLeg i) (recipient (payments s i)) r s2) s3"
    and s': "s' = emit (PaymentCompleted i (recipient (payments s i)) r) s3"
    by (rule completePayment_steps [OF assms])
  let ?m = "after_fee i f (set_status i Completed s)"
  let ?t = "credit (RecipientLeg i) (recipient (payments s i)) r s2"
  from m_s2 have "evolves ?m s2" by (simp add: sound_def)
  then have a: "frozen (payments ?m i) (payments s2 i)"
    "advances (status (payments ?m i)) (status (payments s2 i))"
    "legs (FeeLeg i) s2 = legs (FeeLeg i) ?m"
    "legs (RecipientLeg i) s2 = legs (RecipientLeg i) ?m"
    "i \<le> paymentCounter s2"
    unfolding evolves_def using i by auto
  from t_s3 have "evolves ?t s3" by (simp add: sound_def)
  then have b: "frozen (payments ?t i) (payments s3 i)"
    "advances (status (payments ?t i)) (status (payments s3 i))"
    "legs (FeeLeg i) s3 = legs (FeeLeg i) ?t"
    "legs (RecipientLeg i) s3 = legs (RecipientLeg i) ?t"
    unfolding evolves_def using a(5) by auto
  have fee: "legs (FeeLeg i) s' =
       legs (FeeLeg i) s @
         (if 0 < f \<and> feeRecipient s \<noteq> 0 then [(FeeLeg i, feeRecipient s, f)] else [])"
    using a(3) b(3) by (simp add: s' legs_credit legs_after_fee)
  have rec: "legs (RecipientLeg i) s' =
       legs (RecipientLeg i) s @ [(RecipientLeg i, recipient (payments s i), r)]"
    using a(4) b(4) by (simp add: s' legs_credit legs_after_fee)
  have fz: "frozen (payments s i) (payments s' i)"
    using a(1) b(1) by (simp add: s' frozen_def)
  have "status (payments s2 i) = Completed \<or> status (payments s2 i) = Refunded"
    using a(2) by (auto simp: advances_def)
  with b(2) have "status (payments s' i) = Completed \<or> status (payments s' i) = Refunded"
    by (auto simp: s' advances_def)
  moreover have "paymentCounter s \<le> paymentCounter s'"
    using a(5) i \<open>evolves ?t s3\<close> by (simp add: s' evolves_def)
  moreover have "prefix (userPayments s a) (userPayments s' a)" for a
  proof -
    from \<open>evolves ?m s2\<close> have "prefix (userPayments ?m a) (userPayments s2 a)"
      unfolding evolves_def by blast
    moreover from \<open>evolves ?t s3\<close> have "prefix (userPayments ?t a) (userPayments s3 a)"
      unfolding evolves_def by blast
    ultimately show ?thesis by (simp add: s')
  qed
  ultimately show ?thesis using sp fee rec fz by blast
qed

lemma completePayment_sound:
  assumes gw: "gateway_ok gw"
    and run: "completePayment gw i s = Inr s'"
    and i: "i = paymentCounter s" "i = paymentCounter s0 + 1"
    and ev: "evolves s0 s"
    and inv: "invariant s0 \<longrightarrow> invariant s"
  shows "sound s0 s'"
proof -
  obtain f r s2 s3 where
    st: "status (payments s i) = Pending"
    and sp: "split (amount (payments s i)) (platformFeeBps s) = Some (f, r)"
    and "pay_fee gw i f (set_status i Completed s) = Inr s2"
    and m_s2: "sound (after_fee i f (set_status i Completed s)) s2"
    and "gw (RecipientLeg i) (recipient (payments s i)) r s2 = Some s3"
    and t_s3: "sound (credit (RecipientLeg i) (recipient (payments s i)) r s2) s3"
    and s': "s' = emit (PaymentCompleted i (recipient (payments s i)) r) s3"
    by (rule completePayment_steps [OF gw run i(1)])
  let ?s1 = "set_status i Completed s"
  let ?m = "after_fee i f ?s1"
  let ?t = "credit (RecipientLeg i) (recipient (payments s i)) r s2"
  have fr: "f \<le> amount (payments s i)" "f + r = amount (payments s i)"
    using split_Some [OF sp] by simp_all
  from i have new: "paymentCounter s0 < i" and pos: "1 \<le> i" by simp_all
  have "advances (status (payments s i)) Completed" using st by (simp add: advances_def)
  with ev have ev1: "evolves s0 ?s1" by (rule evolves_set_status)
  then have ev_m: "evolves s0 ?m" using new by (rule evolves_after_fee)
  from m_s2 have ev_m2: "evolves ?m s2" and cp_m2: "completes ?m s2"
    by (simp_all add: sound_def)
  from ev_m2 i(1) have at_i:
    "frozen (payments ?m i) (payments s2 i)"
    "advances (status (payments ?m i)) (status (payments s2 i))"
    "legs (FeeLeg i) s2 = legs (FeeLeg i) ?m"
    "legs (RecipientLeg i) s2 = legs (RecipientLeg i) ?m"
    "i \<le> paymentCounter s2"
    unfolding evolves_def by auto
  have amt2: "amount (payments s2 i) = amount (payments s i)"
    using at_i(1) by (simp add: frozen_def)
  have st2: "status (payments s2 i) = Completed \<or> status (payments s2 i) = Refunded"
    using at_i(2) by (auto simp: advances_def)
  from ev_m ev_m2 have ev2: "evolves s0 s2" by (rule evolves_trans)
  have ev_t: "evolves s0 ?t" using ev2 new by (intro evolves_credit) auto
  from t_s3 have ev_t3: "evolves ?t s3" and cp_t3: "completes ?t s3"
    by (simp_all add: sound_def)
  from ev_t ev_t3 have "evolves s0 s3" by (rule evolves_trans)
  then have ev': "evolves s0 s'" unfolding s' by (rule evolves_emit)
  have cp': "completes s0 s'"
    unfolding completes_def
  proof (intro allI impI)
    fix j
    assume j: "paymentCounter s0 < j \<and> j \<le> paymentCounter s'"
    have keep: "legs (RecipientLeg j) s3 = legs (RecipientLeg j) ?t" if "j \<le> paymentCounter s2"
      using ev_t3 that unfolding evolves_def by auto
    have "legs (RecipientLeg j) s3 \<noteq> []"
    proof (cases "j = i")
      case True
      with at_i(5) keep show ?thesis by (simp add: legs_credit)
    next
      case False
      with j i have gt: "paymentCounter ?m < j" by simp
      show ?thesis
      proof (cases "j \<le> paymentCounter s2")
        case True
        with gt cp_m2 have "legs (RecipientLeg j) s2 \<noteq> []" by (simp add: completes_def)
        with True keep show ?thesis by (simp add: legs_credit)
      next
        case False
        with j cp_t3 show ?thesis by (simp add: completes_def s')
      qed
    qed
    then show "legs (RecipientLeg j) s' \<noteq> []" by (simp add: s')
  qed
  have inv': "invariant s'" if "invariant s0"
  proof -
    from that inv have inv_s: "invariant s" by simp
    from inv_s i pos have "ledger_ok s i" by (simp add: invariant_def)
    with st have un: "untouched i s" by (simp add: ledger_ok_def)
    from inv_s pos i st have i1: "invariant ?s1" by (intro invariant_complete_status) simp_all
    from i1 pos i un fr have im: "invariant ?m" by (intro invariant_after_fee) simp_all
    have rl: "legs (RecipientLeg i) ?m = []"
      using un by (simp add: legs_after_fee untouched_def)
    have fl: "legs (FeeLeg i) ?m =
        (if 0 < f \<and> feeRecipient s \<noteq> 0 then [(FeeLeg i, feeRecipient s, f)] else [])"
      using un by (simp add: legs_after_fee untouched_def)
    have tot: "total (FeeLeg i) s2 = (if 0 < f \<and> feeRecipient s \<noteq> 0 then f else 0)"
      using at_i(3) fl by (simp add: total_def)
    from im m_s2 have i2: "invariant s2" by (simp add: sound_def)
    with pos at_i(5) have ok2: "ledger_ok s2 i" by (simp add: invariant_def)
    have "ledger_ok ?t i"
      using ok2 st2 rl fl at_i(3,4) tot amt2 fr
      by (intro ledger_ok_recipient_leg) auto
    with i2 pos at_i(5) have "invariant ?t" by (intro invariant_credit_leg) simp_all
    with t_s3 have "invariant s3" by (simp add: sound_def)
    then show ?thesis by (simp add: s')
  qed
  from ev' cp' inv' show ?thesis by (simp add: sound_def)
qed

section \<open>Every call is sound\<close>

lemma store_payment_fields [simp]:
  "self (store_payment a p s) = self s"
  "owner (store_payment a p s) = owner s"
  "paymentCounter (store_payment a p s) = payment_id p"
  "payments (store_payment a p s) j = (if j = payment_id p then p else payments s j)"
  "userPayments (store_payment a p s) b =
     (if b = a then userPayments s a @ [payment_id p] else userPayments s b)"
  "platformFeeBps (store_payment a p s) = platformFeeBps s"
  "feeRecipient (store_payment a p s) = feeRecipient s"
  "balances (store_payment a p s) = balances s"
  "events (store_payment a p s) = events s"
  "transfers (store_payment a p s) = transfers s"
  by (simp_all add: store_payment_def)

lemma legs_store_payment [simp]: "legs q (store_payment a p s) = legs q s"
  by (simp add: legs_def)

lemma total_store_payment [simp]: "total q (store_payment a p s) = total q s"
  by (simp add: total_def)

lemma untouched_store_payment [simp]: "untouched j (store_payment a p s) = untouched j s"
  by (simp add: untouched_def)

lemma evolves_store_payment:
  assumes "payment_id p = paymentCounter s + 1"
  shows "evolves s (store_payment a p s)"
  using assms by (simp add: evolves_def)

lemma invariant_store_payment:
  assumes inv: "invariant s" and p: "payment_id p = paymentCounter s + 1"
    "status p = Pending" "exists p"
  shows "invariant (store_payment a p s)" (is "invariant ?t")
proof -
  have 1: "platformFeeBps ?t \<le> 1000" using inv by (simp add: invariant_def)
  have 2: "exists (payments ?t j) \<longleftrightarrow> 1 \<le> j \<and> j \<le> paymentCounter ?t" for j
    using inv p by (auto simp: invariant_def)
  have 3: "untouched j ?t" if "\<not> (1 \<le> j \<and> j \<le> paymentCounter ?t)" for j
  proof -
    from that p have "\<not> (1 \<le> j \<and> j \<le> paymentCounter s)" by auto
    with inv have "untouched j s" unfolding invariant_def by blast
    then show ?thesis by simp
  qed
  have 4: "ledger_ok ?t j" if j: "1 \<le> j \<and> j \<le> paymentCounter ?t" for j
  proof (cases "j = payment_id p")
    case False
    with j p inv have "ledger_ok s j" by (simp add: invariant_def)
    moreover from False have "ledger_ok ?t j = ledger_ok s j" by (intro ledger_ok_same) simp_all
    ultimately show ?thesis by simp
  next
    case True
    from inv p have "untouched (payment_id p) s" by (simp add: invariant_def)
    with p show ?thesis unfolding True
      by (simp add: ledger_ok_def untouched_def total_Nil)
  qed
  from 1 2 3 4 show ?thesis unfolding invariant_def by blast
qed

lemma createPayment_Inr:
  assumes "createPayment gw sender v now r d s = Inr (i, s')"
  shows "r \<noteq> 0 \<and> r \<noteq> sender \<and> 0 < v \<and> i = paymentCounter s + 1 \<and> i \<le> uint256_max \<and>
     completePayment gw i
       (emit (PaymentCreated i sender r v d)
          (store_payment sender
             \<lparr>payment_id = i, payer = sender, recipient = r, amount = v, timestamp = now,
              status = Pending, description = d, exists = True\<rparr> s)) = Inr s'"
  using assms
  by (auto simp: createPayment_def checked_add_def Let_def split: if_splits sum.splits)

lemma createPayment_sound:
  assumes gw: "gateway_ok gw" and run: "createPayment gw sender v now r d s = Inr (i, s')"
  shows "sound s s'"
proof -
  let ?p = "\<lparr>payment_id = i, payer = sender, recipient = r, amount = v, timestamp = now,
              status = Pending, description = d, exists = True\<rparr>"
  let ?t = "emit (PaymentCreated i sender r v d) (store_payment sender ?p s)"
  from createPayment_Inr [OF run] have i: "i = paymentCounter s + 1"
    and c: "completePayment gw i ?t = Inr s'" by blast+
  have "evolves s (store_payment sender ?p s)" using i by (intro evolves_store_payment) simp
  then have ev: "evolves s ?t" by (rule evolves_emit)
  have inv: "invariant s \<longrightarrow> invariant ?t"
    using i by (auto intro: invariant_store_payment)
  have "i = paymentCounter ?t" by simp
  from gw c this i ev inv show ?thesis by (rule completePayment_sound)
qed

lemma updatePlatformFee_sound:
  assumes "updatePlatformFee sender n s = Inr s'"
  shows "sound s s'"
proof -
  from assms have n: "n \<le> 1000" and s': "s' = s\<lparr>platformFeeBps := n\<rparr>"
    by (auto simp: updatePlatformFee_def split: if_splits)
  have "evolves s s'" unfolding s' by (rule evolves_same [OF evolves_refl]) simp_all
  moreover have "invariant s \<longrightarrow> invariant s'"
    using n unfolding s' by (simp add: invariant_def ledger_ok_def untouched_def legs_def total_def)
  ultimately show ?thesis by (intro sound_same_counter) (simp_all add: s')
qed

lemma updateFeeRecipient_sound:
  assumes "updateFeeRecipient sender a s = Inr s'"
  shows "sound s s'"
proof -
  from assms have s': "s' = s\<lparr>feeRecipient := a\<rparr>"
    by (auto simp: updateFeeRecipient_def split: if_splits)
  have "evolves s s'" unfolding s' by (rule evolves_same [OF evolves_refl]) simp_all
  then show ?thesis by (intro sound_same_counter) (simp_all add: s')
qed

lemma emergencyWithdraw_sound:
  assumes gw: "gateway_ok gw" and run: "emergencyWithdraw gw sender s = Inr s'"
  shows "sound s s'"
proof -
  let ?t = "credit WithdrawLeg (owner s) (balances s (self s)) s"
  from run have call: "gw WithdrawLeg (owner s) (balances s (self s)) s = Some s'"
    by (auto simp: emergencyWithdraw_def Let_def split: if_splits option.splits)
  have "evolves s ?t" by (intro evolves_credit) simp_all
  then have "sound s ?t" by (intro sound_same_counter) (simp_all add: invariant_withdraw)
  moreover from gw call have "sound ?t s'" by (simp add: gateway_ok_def)
  ultimately show ?thesis by (rule sound_trans)
qed

lemma sound_deposit: "sound s (deposit a v s)"
  by (intro sound_same_counter evolves_deposit) simp_all

lemma dispatch_ok:
  assumes gw: "gateway_ok gw"
  shows "executor_ok (dispatch gw now)"
  unfolding executor_ok_def
proof (intro allI impI)
  fix sender c s s'
  assume run: "dispatch gw now sender c s = Inr s'"
  show "sound s s'"
  proof (cases c)
    case (CreatePayment r d v)
    with run obtain i where "createPayment gw sender v now r d (deposit sender v s) = Inr (i, s')"
      by (auto simp: dispatch_def split: if_splits sum.splits)
    with gw have "sound (deposit sender v s) s'" by (rule createPayment_sound)
    with sound_deposit show ?thesis by (rule sound_trans)
  next
    case (RefundPayment i)
    with run gw show ?thesis by (auto simp: dispatch_def intro: refundPayment_sound)
  next
    case (CancelPayment i)
    with run gw show ?thesis by (auto simp: dispatch_def intro: cancelPayment_sound)
  next
    case (UpdatePlatformFee n)
    with run show ?thesis by (auto simp: dispatch_def intro: updatePlatformFee_sound)
  next
    case (UpdateFeeRecipient a)
    with run show ?thesis by (auto simp: dispatch_def intro: updateFeeRecipient_sound)
  next
    case EmergencyWithdraw
    with run gw show ?thesis by (auto simp: dispatch_def intro: emergencyWithdraw_sound)
  qed
qed

lemma run_receiver_sound:
  assumes ex: "executor_ok ex"
  shows "run_receiver env ex to k s = Some s' \<Longrightarrow> sound s s'"
proof (induction k arbitrary: s)
  case 0
  then show ?case by simp
next
  case (Suc k)
  show ?case
  proof (cases "code env to k s")
    case Revert
    with Suc.prems show ?thesis by simp
  next
    case Return
    with Suc.prems show ?thesis by simp
  next
    case (Invoke sender c)
    let ?t = "case ex sender c s of Inl e \<Rightarrow> s | Inr s' \<Rightarrow> s'"
    from Invoke Suc.prems have "run_receiver env ex to k ?t = Some s'" by simp
    then have "sound ?t s'" by (rule Suc.IH)
    moreover have "sound s ?t"
      using ex by (cases "ex sender c s") (auto simp: executor_ok_def)
    ultimately show ?thesis by (blast intro: sound_trans)
  qed
qed

lemma send_ok:
  assumes "executor_ok ex"
  shows "gateway_ok (send env ex k)"
  unfolding gateway_ok_def
  by (auto simp: send_def split: if_splits intro: run_receiver_sound [OF assms])

lemma no_gateway_ok: "gateway_ok (\<lambda>p to v s. None)"
  by (simp add: gateway_ok_def)

lemma exec_dispatch:
  "exec env n sender c s = dispatch (gateway_at env n) (block_timestamp env) sender c s"
  by (cases n) (simp_all add: gateway_at_def)

lemma gateway_at_ok: "gateway_ok (gateway_at env n)"
proof (induction n)
  case 0
  show ?case by (simp add: gateway_at_def no_gateway_ok)
next
  case (Suc n)
  have "exec env n = dispatch (gateway_at env n) (block_timestamp env)"
    by (intro ext) (rule exec_dispatch)
  with Suc have "executor_ok (exec env n)" by (simp add: dispatch_ok)
  then show ?case by (simp add: gateway_at_def send_ok)
qed

lemma exec_ok: "executor_ok (exec env n)"
proof -
  have "exec env n = dispatch (gateway_at env n) (block_timestamp env)"
    by (intro ext) (rule exec_dispatch)
  then show ?thesis by (simp add: dispatch_ok gateway_at_ok)
qed

lemma exec_sound: "exec env n sender c s = Inr s' \<Longrightarrow> sound s s'"
  using exec_ok [of env n] by (simp add: executor_ok_def)

lemma transact_sound: "sound s (transact env n sender c s)"
  by (cases "exec env n sender c s") (auto simp: transact_def dest: exec_sound)

lemma invariant_constructor: "invariant (constructor this sender fr bal)"
  by (simp add: invariant_def constructor_def zero_payment_def untouched_def legs_def)

lemma reachable_invariant: "reachable s \<Longrightarrow> invariant s"
proof (induction rule: reachable.induct)
  case (deployed this sender feeRecipient0 bal)
  show ?case by (rule invariant_constructor)
next
  case (transacted s env n sender c)
  with transact_sound [of s env n sender c] show ?case by (simp add: sound_def)
qed


section \<open>The calls at the level of transactions\<close>

lemma exec_refund:
  "exec env n sender (RefundPayment i) s = refundPayment (gateway_at env n) sender i s"
  by (simp add: exec_dispatch dispatch_def)

lemma exec_cancel:
  "exec env n sender (CancelPayment i) s = cancelPayment (gateway_at env n) sender i s"
  by (simp add: exec_dispatch dispatch_def)

lemma exec_updatePlatformFee:
  "exec env n sender (UpdatePlatformFee b) s = updatePlatformFee sender b s"
  by (simp add: exec_dispatch dispatch_def)

lemma exec_create:
  "exec env n sender (CreatePayment r d v) s =
     (if balances s sender < v then Inl InsufficientFunds
      else
        (case createPayment (gateway_at env n) sender v (block_timestamp env) r d
                (deposit sender v s) of
           Inl e \<Rightarrow> Inl e
         | Inr (paymentId, s') \<Rightarrow> Inr s'))"
  by (simp add: exec_dispatch dispatch_def)

lemma exec_create_Inr:
  assumes "exec env n sender (CreatePayment r d v) s = Inr s'"
  shows "v \<le> balances s sender \<and>
     createPayment (gateway_at env n) sender v (block_timestamp env) r d (deposit sender v s) =
       Inr (paymentCounter s + 1, s')"
proof -
  from assms obtain i where
    "v \<le> balances s sender"
    "createPayment (gateway_at env n) sender v (block_timestamp env) r d (deposit sender v s) =
       Inr (i, s')"
    by (auto simp: exec_create split: if_splits sum.splits)
  moreover from createPayment_Inr [OF this(2)] have "i = paymentCounter s + 1" by simp
  ultimately show ?thesis by simp
qed

text \<open>What a creation that succeeds leaves behind, whatever the receivers do.\<close>

lemma createPayment_trace:
  assumes gw: "gateway_ok gw" and run: "createPayment gw sender v now r d s = Inr (i, s')"
  shows "\<exists>f rr. split v (platformFeeBps s) = Some (f, rr) \<and>
     legs (FeeLeg i) s' =
       legs (FeeLeg i) s @
         (if 0 < f \<and> feeRecipient s \<noteq> 0 then [(FeeLeg i, feeRecipient s, f)] else []) \<and>
     legs (RecipientLeg i) s' = legs (RecipientLeg i) s @ [(RecipientLeg i, r, rr)] \<and>
     payments s' i =
       \<lparr>payment_id = i, payer = sender, recipient = r, amount = v, timestamp = now,
        status = status (payments s' i), description = d, exists = True\<rparr> \<and>
     (status (payments s' i) = Completed \<or> status (payments s' i) = Refunded) \<and>
     i \<le> paymentCounter s' \<and>
     prefix (userPayments s sender @ [i]) (userPayments s' sender)"
proof -
  let ?p = "\<lparr>payment_id = i, payer = sender, recipient = r, amount = v, timestamp = now,
              status = Pending, description = d, exists = True\<rparr>"
  let ?t = "emit (PaymentCreated i sender r v d) (store_payment sender ?p s)"
  from createPayment_Inr [OF run] have c: "completePayment gw i ?t = Inr s'" by blast
  have i: "i = paymentCounter ?t" by simp
  from completePayment_trace [OF gw c i] obtain f rr where
    sp: "split (amount (payments ?t i)) (platformFeeBps ?t) = Some (f, rr)"
    and fee: "legs (FeeLeg i) s' =
       legs (FeeLeg i) ?t @
         (if 0 < f \<and> feeRecipient ?t \<noteq> 0 then [(FeeLeg i, feeRecipient ?t, f)] else [])"
    and rec: "legs (RecipientLeg i) s' =
       legs (RecipientLeg i) ?t @ [(RecipientLeg i, recipient (payments ?t i), rr)]"
    and fz: "frozen (payments ?t i) (payments s' i)"
    and st: "status (payments s' i) = Completed \<or> status (payments s' i) = Refunded"
    and cnt: "paymentCounter ?t \<le> paymentCounter s'"
    and up: "\<forall>a. prefix (userPayments ?t a) (userPayments s' a)"
    by blast
  have rec': "payments s' i =
       \<lparr>payment_id = i, payer = sender, recipient = r, amount = v, timestamp = now,
        status = status (payments s' i), description = d, exists = True\<rparr>"
    using fz by (cases "payments s' i") (simp add: frozen_def)
  from up have "prefix (userPayments ?t sender) (userPayments s' sender)" by blast
  then have up': "prefix (userPayments s sender @ [i]) (userPayments s' sender)" by simp
  from sp have sp': "split v (platformFeeBps s) = Some (f, rr)" by simp
  from fee have fee': "legs (FeeLeg i) s' =
       legs (FeeLeg i) s @
         (if 0 < f \<and> feeRecipient s \<noteq> 0 then [(FeeLeg i, feeRecipient s, f)] else [])"
    by simp
  from rec have rec'': "legs (RecipientLeg i) s' = legs (RecipientLeg i) s @ [(RecipientLeg i, r, rr)]"
    by simp
  from cnt have "i \<le> paymentCounter s'" by simp
  with sp' fee' rec'' rec' st up' show ?thesis by blast
qed

text \<open>What a refund or a cancellation that succeeds leaves behind.\<close>

lemma refundPayment_result:
  assumes gw: "gateway_ok gw" and inv: "invariant s"
    and run: "refundPayment gw sender i s = Inr s'"
  shows "exists (payments s i)" and "sender = payer (payments s i) \<or> sender = owner s"
    and "status (payments s i) = Pending \<or> status (payments s i) = Completed"
    and "status (payments s' i) = Refunded"
    and "frozen (payments s i) (payments s' i)"
    and "legs (RefundLeg i) s = []"
    and "legs (RefundLeg i) s' = [(RefundLeg i, payer (payments s i), amount (payments s i))]"
    and "legs (FeeLeg i) s' = legs (FeeLeg i) s"
    and "legs (RecipientLeg i) s' = legs (RecipientLeg i) s"
    and "invariant s'"
proof -
  let ?t = "credit (RefundLeg i) (payer (payments s i)) (amount (payments s i)) (set_status i Refunded s)"
  from run show ex: "exists (payments s i)"
    and au: "sender = payer (payments s i) \<or> sender = owner s"
    and st: "status (payments s i) = Pending \<or> status (payments s i) = Completed"
    by (auto simp: refundPayment_def split: if_splits)
  from run ex st au obtain s2 where
    call: "gw (RefundLeg i) (payer (payments s i)) (amount (payments s i)) (set_status i Refunded s) = Some s2"
    and s': "s' = emit (PaymentRefunded i (payer (payments s2 i)) (amount (payments s i))) s2"
    by (auto simp: refundPayment_def Let_def split: if_splits option.splits)
  from inv ex have range: "1 \<le> i" "i \<le> paymentCounter s" by (simp_all add: invariant_def)
  from inv range have ok: "ledger_ok s i" by (simp add: invariant_def)
  from gw call have snd: "sound ?t s2" by (simp add: gateway_ok_def)
  then have "evolves ?t s2" by (simp add: sound_def)
  with range have at_i:
    "frozen (payments ?t i) (payments s2 i)"
    "advances (status (payments ?t i)) (status (payments s2 i))"
    "legs (FeeLeg i) s2 = legs (FeeLeg i) ?t"
    "legs (RecipientLeg i) s2 = legs (RecipientLeg i) ?t"
    "i \<le> paymentCounter s2"
    unfolding evolves_def by auto
  from at_i(2) show st': "status (payments s' i) = Refunded"
    by (simp add: s' advances_def)
  from at_i(1) show fz: "frozen (payments s i) (payments s' i)"
    by (simp add: s' frozen_def)
  from ok st show "legs (RefundLeg i) s = []"
    by (auto simp: ledger_ok_def untouched_def)
  from inv ex st have "invariant ?t" by (rule invariant_refund_step)
  with snd have "invariant s2" by (simp add: sound_def)
  then show inv': "invariant s'" by (simp add: s')
  with range at_i(5) have "ledger_ok s' i" by (simp add: invariant_def s')
  with st' have "legs (RefundLeg i) s' = [(RefundLeg i, payer (payments s' i), amount (payments s' i))]"
    by (simp add: ledger_ok_def)
  with fz show "legs (RefundLeg i) s' = [(RefundLeg i, payer (payments s i), amount (payments s i))]"
    by (simp add: frozen_def)
  from at_i(3) show "legs (FeeLeg i) s' = legs (FeeLeg i) s" by (simp add: s' legs_credit)
  from at_i(4) show "legs (RecipientLeg i) s' = legs (RecipientLeg i) s"
    by (simp add: s' legs_credit)
qed

lemma cancelPayment_result:
  assumes gw: "gateway_ok gw" and inv: "invariant s"
    and run: "cancelPayment gw sender i s = Inr s'"
  shows "status (payments s i) = Pending"
    and "status (payments s' i) = Cancelled"
    and "legs (CancelLeg i) s = []"
    and "legs (CancelLeg i) s' = [(CancelLeg i, payer (payments s i), amount (payments s i))]"
proof -
  let ?t = "credit (CancelLeg i) (payer (payments s i)) (amount (payments s i)) (set_status i Cancelled s)"
  from run have ex: "exists (payments s i)"
    and au: "sender = payer (payments s i) \<or> sender = owner s"
    by (auto simp: cancelPayment_def split: if_splits)
  from run show st: "status (payments s i) = Pending"
    by (auto simp: cancelPayment_def split: if_splits)
  from run ex st au obtain s2 where
    call: "gw (CancelLeg i) (payer (payments s i)) (amount (payments s i)) (set_status i Cancelled s) = Some s2"
    and s': "s' = emit (PaymentCancelled i (payer (payments s2 i)) (amount (payments s i))) s2"
    by (auto simp: cancelPayment_def Let_def split: if_splits option.splits)
  from inv ex have range: "1 \<le> i" "i \<le> paymentCounter s" by (simp_all add: invariant_def)
  from inv range have ok: "ledger_ok s i" by (simp add: invariant_def)
  from gw call have snd: "sound ?t s2" by (simp add: gateway_ok_def)
  then have "evolves ?t s2" by (simp add: sound_def)
  with range have at_i:
    "frozen (payments ?t i) (payments s2 i)"
    "advances (status (payments ?t i)) (status (payments s2 i))"
    "i \<le> paymentCounter s2"
    unfolding evolves_def by auto
  from at_i(2) show st': "status (payments s' i) = Cancelled"
    by (simp add: s' advances_def)
  from at_i(1) have fz: "frozen (payments s i) (payments s' i)"
    by (simp add: s' frozen_def)
  from ok st show "legs (CancelLeg i) s = []"
    by (auto simp: ledger_ok_def untouched_def)
  from inv ex st have "invariant ?t" by (rule invariant_cancel_step)
  with snd have "invariant s2" by (simp add: sound_def)
  then have "invariant s'" by (simp add: s')
  with range at_i(3) have "ledger_ok s' i" by (simp add: invariant_def s')
  with st' have "legs (CancelLeg i) s' = [(CancelLeg i, payer (payments s' i), amount (payments s' i))]"
    by (simp add: ledger_ok_def)
  with fz show "legs (CancelLeg i) s' = [(CancelLeg i, payer (payments s i), amount (payments s i))]"
    by (simp add: frozen_def)
qed

section \<open>The scenarios, evaluated\<close>

lemma run_receiver_unfold:
  "run_receiver env ex to k s =
     (case k of
        0 \<Rightarrow> None
      | Suc k' \<Rightarrow>
          (case code env to k' s of
             Revert \<Rightarrow> None
           | Return \<Rightarrow> Some s
           | Invoke sender c \<Rightarrow>
               run_receiver env ex to k' (case ex sender c s of Inl e \<Rightarrow> s | Inr s' \<Rightarrow> s')))"
  by (cases k) simp_all

lemmas run_defs =
  transact_def exec_dispatch gateway_at_def run_receiver_unfold dispatch_def createPayment_def
  completePayment_def pay_fee_def pay_recipient_def refundPayment_def cancelPayment_def
  updatePlatformFee_def send_def split_def checked_add_def checked_mul_def checked_sub_def
  uint256_max_def store_payment_def emit_def credit_def deposit_def set_status_def Let_def

lemma demo0_eq:
  "demo0 =
     \<lparr>self = 100, owner = 1, paymentCounter = 0,
      payments = (\<lambda>_. zero_payment),
      userPayments = (\<lambda>_. []), platformFeeBps = 25, feeRecipient = 2,
      balances = funds,
      events =
        [],
      transfers =
        []\<rparr>"
  by (simp add: demo0_def constructor_def)

lemma demo1_eq:
  "demo1 =
     \<lparr>self = 100, owner = 1, paymentCounter = 1,
      payments = (\<lambda>_. zero_payment)
        (1 := \<lparr>payment_id = 1, payer = 10, recipient = 11, amount = 1000,
               timestamp = 1700000000, status = Completed, description = [],
               exists = True\<rparr>),
      userPayments = (\<lambda>_. [])(10 := [1]), platformFeeBps = 25, feeRecipient = 2,
      balances = 
        (\<lambda>a. if a = 10 then 49000 else if a = 11 then 998 else if a = 2 then 2 else 0),
      events =
        [PaymentCreated 1 10 11 1000 [], PaymentCompleted 1 11 998],
      transfers =
        [(FeeLeg 1, 2, 2), (RecipientLeg 1, 11, 998)]\<rparr>"
  unfolding demo1_def demo0_eq quiet_def
  by (simp add: run_defs funds_def fun_eq_iff)

lemma escrow1_eq:
  "escrow1 =
     \<lparr>self = 100, owner = 1, paymentCounter = 1,
      payments = (\<lambda>_. zero_payment)
        (1 := \<lparr>payment_id = 1, payer = 10, recipient = 11, amount = 1000,
               timestamp = 1700000000, status = Pending, description = [],
               exists = True\<rparr>),
      userPayments = (\<lambda>_. [])(10 := [1]), platformFeeBps = 25, feeRecipient = 2,
      balances = 
        (\<lambda>a. if a = 10 then 49000 else if a = 100 then 1000 else 0),
      events =
        [PaymentCreated 1 10 11 1000 []],
      transfers =
        []\<rparr>"
  unfolding escrow1_def demo0_eq
  by (simp add: store_payment_def emit_def deposit_def funds_def fun_eq_iff)

lemma tenth0_eq:
  "tenth0 =
     \<lparr>self = 100, owner = 1, paymentCounter = 0,
      payments = (\<lambda>_. zero_payment),
      userPayments = (\<lambda>_. []), platformFeeBps = 1000, feeRecipient = 2,
      balances = funds,
      events =
        [],
      transfers =
        []\<rparr>"
  unfolding tenth0_def demo0_eq quiet_def
  by (simp add: run_defs)

lemma tenth1_eq:
  "tenth1 =
     \<lparr>self = 100, owner = 1, paymentCounter = 1,
      payments = (\<lambda>_. zero_payment)
        (1 := \<lparr>payment_id = 1, payer = 10, recipient = 11, amount = 1000,
               timestamp = 1700000000, status = Completed, description = [],
               exists = True\<rparr>),
      userPayments = (\<lambda>_. [])(10 := [1]), platformFeeBps = 1000, feeRecipient = 2,
      balances = 
        (\<lambda>a. if a = 10 then 49000 else if a = 11 then 900 else if a = 2 then 100 else 0),
      events =
        [PaymentCreated 1 10 11 1000 [], PaymentCompleted 1 11 900],
      transfers =
        [(FeeLeg 1, 2, 100), (RecipientLeg 1, 11, 900)]\<rparr>"
  unfolding tenth1_def tenth0_eq quiet_def
  by (simp add: run_defs funds_def fun_eq_iff)

lemma nofee0_eq:
  "nofee0 =
     \<lparr>self = 100, owner = 1, paymentCounter = 0,
      payments = (\<lambda>_. zero_payment),
      userPayments = (\<lambda>_. []), platformFeeBps = 25, feeRecipient = 0,
      balances = funds,
      events =
        [],
      transfers =
        []\<rparr>"
  by (simp add: nofee0_def constructor_def)

lemma nofee1_eq:
  "nofee1 =
     \<lparr>self = 100, owner = 1, paymentCounter = 1,
      payments = (\<lambda>_. zero_payment)
        (1 := \<lparr>payment_id = 1, payer = 10, recipient = 11, amount = 10000,
               timestamp = 1700000000, status = Completed, description = [],
               exists = True\<rparr>),
      userPayments = (\<lambda>_. [])(10 := [1]), platformFeeBps = 25, feeRecipient = 0,
      balances = 
        (\<lambda>a. if a = 10 then 40000 else if a = 11 then 9975 else if a = 100 then 25 else 0),
      events =
        [PaymentCreated 1 10 11 10000 [], PaymentCompleted 1 11 9975],
      transfers =
        [(RecipientLeg 1, 11, 9975)]\<rparr>"
  unfolding nofee1_def nofee0_eq quiet_def
  by (simp add: run_defs funds_def fun_eq_iff)

lemma nofee2_eq:
  "nofee2 =
     \<lparr>self = 100, owner = 1, paymentCounter = 2,
      payments = (\<lambda>_. zero_payment)
        (1 := \<lparr>payment_id = 1, payer = 10, recipient = 11, amount = 10000,
               timestamp = 1700000000, status = Completed, description = [],
               exists = True\<rparr>,
         2 := \<lparr>payment_id = 2, payer = 10, recipient = 11, amount = 20,
               timestamp = 1700000000, status = Completed, description = [],
               exists = True\<rparr>),
      userPayments = (\<lambda>_. [])(10 := [1, 2]), platformFeeBps = 25, feeRecipient = 0,
      balances = 
        (\<lambda>a. if a = 10 then 39980 else if a = 11 then 9995 else if a = 100 then 25 else 0),
      events =
        [PaymentCreated 1 10 11 10000 [], PaymentCompleted 1 11 9975, PaymentCreated 2 10 11 20 [], PaymentCompleted 2 11 20],
      transfers =
        [(RecipientLeg 1, 11, 9975), (RecipientLeg 2, 11, 20)]\<rparr>"
  unfolding nofee2_def nofee1_eq quiet_def
  by (simp add: run_defs fun_eq_iff)

lemma nofee3_eq:
  "nofee3 =
     \<lparr>self = 100, owner = 1, paymentCounter = 2,
      payments = (\<lambda>_. zero_payment)
        (1 := \<lparr>payment_id = 1, payer = 10, recipient = 11, amount = 10000,
               timestamp = 1700000000, status = Completed, description = [],
               exists = True\<rparr>,
         2 := \<lparr>payment_id = 2, payer = 10, recipient = 11, amount = 20,
               timestamp = 1700000000, status = Refunded, description = [],
               exists = True\<rparr>),
      userPayments = (\<lambda>_. [])(10 := [1, 2]), platformFeeBps = 25, feeRecipient = 0,
      balances = 
        (\<lambda>a. if a = 10 then 40000 else if a = 11 then 9995 else if a = 100 then 5 else 0),
      events =
        [PaymentCreated 1 10 11 10000 [], PaymentCompleted 1 11 9975, PaymentCreated 2 10 11 20 [], PaymentCompleted 2 11 20, PaymentRefunded 2 10 20],
      transfers =
        [(RecipientLeg 1, 11, 9975), (RecipientLeg 2, 11, 20), (RefundLeg 2, 10, 20)]\<rparr>"
  unfolding nofee3_def nofee2_eq quiet_def
  by (simp add: run_defs fun_eq_iff)

lemma nofee3r_eq:
  "nofee3r =
     \<lparr>self = 100, owner = 1, paymentCounter = 2,
      payments = (\<lambda>_. zero_payment)
        (1 := \<lparr>payment_id = 1, payer = 10, recipient = 11, amount = 10000,
               timestamp = 1700000000, status = Completed, description = [],
               exists = True\<rparr>,
         2 := \<lparr>payment_id = 2, payer = 10, recipient = 11, amount = 20,
               timestamp = 1700000000, status = Refunded, description = [],
               exists = True\<rparr>),
      userPayments = (\<lambda>_. [])(10 := [1, 2]), platformFeeBps = 25, feeRecipient = 0,
      balances = 
        (\<lambda>a. if a = 10 then 40000 else if a = 11 then 9995 else if a = 100 then 5 else 0),
      events =
        [PaymentCreated 1 10 11 10000 [], PaymentCompleted 1 11 9975, PaymentCreated 2 10 11 20 [], PaymentCompleted 2 11 20, PaymentRefunded 2 10 20],
      transfers =
        [(RecipientLeg 1, 11, 9975), (RecipientLeg 2, 11, 20), (RefundLeg 2, 10, 20)]\<rparr>"
  unfolding nofee3r_def nofee2_eq reentrant_def
  by (simp add: run_defs fun_eq_iff)

lemma funded0_eq:
  "funded0 =
     \<lparr>self = 100, owner = 1, paymentCounter = 0,
      payments = (\<lambda>_. zero_payment),
      userPayments = (\<lambda>_. []), platformFeeBps = 25, feeRecipient = 2,
      balances = (\<lambda>a. if a = 10 then 50000 else if a = 100 then 5000 else 0),
      events =
        [],
      transfers =
        []\<rparr>"
  by (simp add: funded0_def constructor_def)

lemma funded1_eq:
  "funded1 =
     \<lparr>self = 100, owner = 1, paymentCounter = 1,
      payments = (\<lambda>_. zero_payment)
        (1 := \<lparr>payment_id = 1, payer = 10, recipient = 11, amount = 1000,
               timestamp = 1700000000, status = Completed, description = [],
               exists = True\<rparr>),
      userPayments = (\<lambda>_. [])(10 := [1]), platformFeeBps = 25, feeRecipient = 2,
      balances = 
        (\<lambda>a. if a = 10 then 49000 else if a = 11 then 998 else if a = 2 then 2 else if a = 100 then 5000 else 0),
      events =
        [PaymentCreated 1 10 11 1000 [], PaymentCompleted 1 11 998],
      transfers =
        [(FeeLeg 1, 2, 2), (RecipientLeg 1, 11, 998)]\<rparr>"
  unfolding funded1_def funded0_eq quiet_def
  by (simp add: run_defs fun_eq_iff)

lemma funded2_eq:
  "funded2 =
     \<lparr>self = 100, owner = 1, paymentCounter = 1,
      payments = (\<lambda>_. zero_payment)
        (1 := \<lparr>payment_id = 1, payer = 10, recipient = 11, amount = 1000,
               timestamp = 1700000000, status = Refunded, description = [],
               exists = True\<rparr>),
      userPayments = (\<lambda>_. [])(10 := [1]), platformFeeBps = 25, feeRecipient = 2,
      balances = 
        (\<lambda>a. if a = 10 then 50000 else if a = 11 then 998 else if a = 2 then 2 else if a = 100 then 4000 else 0),
      events =
        [PaymentCreated 1 10 11 1000 [], PaymentCompleted 1 11 998, PaymentRefunded 1 10 1000],
      transfers =
        [(FeeLeg 1, 2, 2), (RecipientLeg 1, 11, 998), (RefundLeg 1, 10, 1000)]\<rparr>"
  unfolding funded2_def funded1_eq quiet_def
  by (simp add: run_defs fun_eq_iff)

lemma pending1_eq:
  "pending1 =
     \<lparr>self = 100, owner = 1, paymentCounter = 1,
      payments = (\<lambda>_. zero_payment)
        (1 := \<lparr>payment_id = 1, payer = 10, recipient = 11, amount = 30,
               timestamp = 1700000000, status = Pending, description = [],
               exists = True\<rparr>),
      userPayments = (\<lambda>_. [])(10 := [1]), platformFeeBps = 25, feeRecipient = 2,
      balances = 
        (\<lambda>a. if a = 100 then 30 else 0),
      events =
        [],
      transfers =
        []\<rparr>"
  by (simp add: pending1_def constructor_def store_payment_def)

lemma cancelled1_eq:
  "cancelled1 =
     \<lparr>self = 100, owner = 1, paymentCounter = 1,
      payments = (\<lambda>_. zero_payment)
        (1 := \<lparr>payment_id = 1, payer = 10, recipient = 11, amount = 30,
               timestamp = 1700000000, status = Cancelled, description = [],
               exists = True\<rparr>),
      userPayments = (\<lambda>_. [])(10 := [1]), platformFeeBps = 25, feeRecipient = 2,
      balances = 
        (\<lambda>a. if a = 10 then 30 else 0),
      events =
        [PaymentCancelled 1 10 30],
      transfers =
        [(CancelLeg 1, 10, 30)]\<rparr>"
  unfolding cancelled1_def pending1_eq quiet_def
  by (simp add: run_defs fun_eq_iff)


lemma swift2_eq:
  "swift2 =
     \<lparr>self = 100, owner = 1, paymentCounter = 2,
      payments = (\<lambda>_. zero_payment)
        (1 := \<lparr>payment_id = 1, payer = 10, recipient = 11, amount = 10000,
               timestamp = 1700000000, status = Completed, description = [],
               exists = True\<rparr>,
         2 := \<lparr>payment_id = 2, payer = 10, recipient = 11, amount = 20,
               timestamp = 1700000000, status = Refunded, description = [],
               exists = True\<rparr>),
      userPayments = (\<lambda>_. [])(10 := [1, 2]), platformFeeBps = 25, feeRecipient = 0,
      balances = 
        (\<lambda>a. if a = 10 then 40000 else if a = 11 then 9995 else if a = 100 then 5 else 0),
      events =
        [PaymentCreated 1 10 11 10000 [], PaymentCompleted 1 11 9975, PaymentCreated 2 10 11 20 [], PaymentRefunded 2 10 20, PaymentCompleted 2 11 20],
      transfers =
        [(RecipientLeg 1, 11, 9975), (RecipientLeg 2, 11, 20), (RefundLeg 2, 10, 20)]\<rparr>"
  unfolding swift2_def nofee1_eq refunding_def
  by (simp add: run_defs fun_eq_iff)


lemma transact_changed:
  "transact env n sender c s \<noteq> s \<Longrightarrow> exec env n sender c s = Inr (transact env n sender c s)"
  by (cases "exec env n sender c s") (simp_all add: transact_def)

lemma differ_by_events: "events s \<noteq> events t \<Longrightarrow> s \<noteq> t"
  by auto

lemma demo1_run: "exec quiet 2 10 (CreatePayment 11 [] 1000) demo0 = Inr demo1"
  unfolding demo1_def
  by (rule transact_changed, fold demo1_def, rule differ_by_events) (simp add: demo1_eq demo0_eq)

lemma tenth1_run: "exec quiet 2 10 (CreatePayment 11 [] 1000) tenth0 = Inr tenth1"
  unfolding tenth1_def
  by (rule transact_changed, fold tenth1_def, rule differ_by_events) (simp add: tenth1_eq tenth0_eq)


lemma nofee3_run: "exec quiet 2 10 (RefundPayment 2) nofee2 = Inr nofee3"
  unfolding nofee3_def
  by (rule transact_changed, fold nofee3_def, rule differ_by_events) (simp add: nofee3_eq nofee2_eq)

lemma nofee3r_run: "exec reentrant 3 10 (RefundPayment 2) nofee2 = Inr nofee3r"
  unfolding nofee3r_def
  by (rule transact_changed, fold nofee3r_def, rule differ_by_events) (simp add: nofee3r_eq nofee2_eq)

lemma funded2_run: "exec quiet 2 10 (RefundPayment 1) funded1 = Inr funded2"
  unfolding funded2_def
  by (rule transact_changed, fold funded2_def, rule differ_by_events) (simp add: funded2_eq funded1_eq)

lemma swift2_run: "exec refunding 3 10 (CreatePayment 11 [] 20) nofee1 = Inr swift2"
  unfolding swift2_def
  by (rule transact_changed, fold swift2_def, rule differ_by_events) (simp add: swift2_eq nofee1_eq)

lemma reachable_nofee1: "reachable nofee1"
  unfolding nofee1_def nofee0_def by (intro reachable.intros)

lemma cancelled1_run: "exec quiet 2 10 (CancelPayment 1) pending1 = Inr cancelled1"
  unfolding cancelled1_def
  by (rule transact_changed, fold cancelled1_def, rule differ_by_events)
    (simp add: cancelled1_eq pending1_eq)

lemma reachable_demo1: "reachable demo1"
  unfolding demo1_def demo0_def by (intro reachable.intros)

lemma reachable_nofee2: "reachable nofee2"
  unfolding nofee2_def nofee1_def nofee0_def by (intro reachable.intros)


lemma invariant_pending1: "invariant pending1"
proof -
  have "invariant (constructor 100 1 2 (\<lambda>a. if a = 100 then 30 else 0))"
    by (rule invariant_constructor)
  then show ?thesis unfolding pending1_def
    by (rule invariant_store_payment) (simp_all add: constructor_def)
qed

lemma reachable_funded1: "reachable funded1"
  unfolding funded1_def funded0_def by (intro reachable.intros)


lemma reachable_demo0: "reachable demo0"
  unfolding demo0_def by (intro reachable.intros)

section \<open>Receivers that do not call back\<close>

lemma run_receiver_no_callbacks:
  "no_callbacks env \<Longrightarrow> run_receiver env ex to k s = Some s' \<Longrightarrow> s' = s"
  by (cases k; cases "code env to (k - 1) s") (auto simp: no_callbacks_def)

lemma gateway_at_no_callbacks:
  "no_callbacks env \<Longrightarrow> gateway_at env n p to v s = Some s' \<Longrightarrow> s' = credit p to v s"
  by (cases n)
    (auto simp: gateway_at_def send_def split: if_splits dest: run_receiver_no_callbacks)

lemma no_callbacks_quiet: "no_callbacks quiet"
  by (simp add: no_callbacks_def quiet_def)

section \<open>The claims\<close>

subsection \<open>C1: what is paid out for a payment\<close>




subsection \<open>C2: the status is written before the transfer\<close>

text \<open>
  C2: \<^verbatim>\<open>refundPayment\<close> makes its transfer call only in a state in which the status of
  the payment is already Refunded, \<^verbatim>\<open>cancelPayment\<close> only when it is already
  Cancelled, and a completion makes its calls only when the status is past Pending
  (Completed, or Refunded by a receiver of the fee leg): a gateway that refuses every
  call made in another state gives the same result. In such a state a reentrant call of
  the same transition reverts: a refund on Refunded or Cancelled, a cancellation or a
  completion on anything but Pending. So, from a state that satisfies the invariant of
  the ledger and whatever the receivers do, a refund that succeeds has issued exactly
  one refund transfer for its payment, a cancellation exactly one cancel transfer, and a
  creation exactly one recipient leg and at most one fee leg for the new payment.
\<close>

theorem status_written_before_transfer:
  "refundPayment gw sender i s =
     refundPayment
       (\<lambda>p to v t. if status (payments t i) = Refunded then gw p to v t else None) sender i s \<and>
   cancelPayment gw sender i s =
     cancelPayment
       (\<lambda>p to v t. if status (payments t i) = Cancelled then gw p to v t else None) sender i s \<and>
   (i = paymentCounter s \<longrightarrow>
      completePayment (gateway_at env n) i s =
        completePayment
          (\<lambda>p to v t.
             if status (payments t i) = Completed \<or> status (payments t i) = Refunded
             then gateway_at env n p to v t else None) i s) \<and>
   (status (payments t i) = Refunded \<or> status (payments t i) = Cancelled \<longrightarrow>
      isl (refundPayment gw' a i t) \<and> isl (cancelPayment gw' a i t) \<and>
      completePayment gw' i t = Inl PaymentNotPending) \<and>
   (status (payments t i) = Completed \<longrightarrow>
      isl (cancelPayment gw' a i t) \<and> completePayment gw' i t = Inl PaymentNotPending) \<and>
   (invariant s \<and> exec env n sender (RefundPayment i) s = Inr s' \<longrightarrow>
      legs (RefundLeg i) s = [] \<and>
      legs (RefundLeg i) s' =
        [(RefundLeg i, payer (payments s i), amount (payments s i))]) \<and>
   (invariant s \<and> exec env n sender (CancelPayment i) s = Inr s' \<longrightarrow>
      legs (CancelLeg i) s = [] \<and>
      legs (CancelLeg i) s' =
        [(CancelLeg i, payer (payments s i), amount (payments s i))]) \<and>
   (invariant s \<and> exec env n sender (CreatePayment rc d v) s = Inr s' \<longrightarrow>
      length (legs (RecipientLeg (paymentCounter s + 1)) s') = 1 \<and>
      length (legs (FeeLeg (paymentCounter s + 1)) s') \<le> 1)"
proof -
  let ?gw = "gateway_at env n"
  let ?G = "\<lambda>p to v t.
             if status (payments t i) = Completed \<or> status (payments t i) = Refunded
             then ?gw p to v t else None"
  have 1: "refundPayment gw sender i s =
     refundPayment
       (\<lambda>p to v t. if status (payments t i) = Refunded then gw p to v t else None) sender i s"
    by (simp add: refundPayment_def Let_def)
  have 2: "cancelPayment gw sender i s =
     cancelPayment
       (\<lambda>p to v t. if status (payments t i) = Cancelled then gw p to v t else None) sender i s"
    by (simp add: cancelPayment_def Let_def)
  have 3: "completePayment ?gw i s = completePayment ?G i s" if i: "i = paymentCounter s"
  proof -
    let ?s1 = "set_status i Completed s"
    have fee_eq: "pay_fee ?G i f ?s1 = pay_fee ?gw i f ?s1" for f
      by (simp add: pay_fee_def)
    have rec_eq: "pay_recipient ?G i r s2 = pay_recipient ?gw i r s2"
      if fee: "pay_fee ?gw i f ?s1 = Inr s2" for f r s2
    proof -
      from pay_fee_sound [OF gateway_at_ok fee] have "evolves (after_fee i f ?s1) s2"
        by (simp add: sound_def)
      with i have "advances (status (payments (after_fee i f ?s1) i)) (status (payments s2 i))"
        unfolding evolves_def by auto
      then have "status (payments s2 i) = Completed \<or> status (payments s2 i) = Refunded"
        by (auto simp: advances_def)
      then show ?thesis by (simp add: pay_recipient_def)
    qed
    show ?thesis
      unfolding completePayment_def Let_def fee_eq
      by (auto split: option.splits sum.splits prod.splits simp: rec_eq)
  qed
  have 4: "isl (refundPayment gw' a i t) \<and> isl (cancelPayment gw' a i t) \<and>
      completePayment gw' i t = Inl PaymentNotPending"
    if "status (payments t i) = Refunded \<or> status (payments t i) = Cancelled"
    using that by (auto simp: refundPayment_def cancelPayment_def completePayment_def)
  have 5: "isl (cancelPayment gw' a i t) \<and> completePayment gw' i t = Inl PaymentNotPending"
    if "status (payments t i) = Completed"
    using that by (auto simp: cancelPayment_def completePayment_def)
  have 6: "legs (RefundLeg i) s = [] \<and>
      legs (RefundLeg i) s' = [(RefundLeg i, payer (payments s i), amount (payments s i))]"
    if "invariant s" "exec env n sender (RefundPayment i) s = Inr s'"
    using refundPayment_result(6,7) [OF gateway_at_ok that(1)] that(2)
    by (simp add: exec_refund)
  have 7: "legs (CancelLeg i) s = [] \<and>
      legs (CancelLeg i) s' = [(CancelLeg i, payer (payments s i), amount (payments s i))]"
    if "invariant s" "exec env n sender (CancelPayment i) s = Inr s'"
    using cancelPayment_result(3,4) [OF gateway_at_ok that(1)] that(2)
    by (simp add: exec_cancel)
  have 8: "length (legs (RecipientLeg (paymentCounter s + 1)) s') = 1 \<and>
      length (legs (FeeLeg (paymentCounter s + 1)) s') \<le> 1"
    if inv: "invariant s" and run: "exec env n sender (CreatePayment rc d v) s = Inr s'"
  proof -
    from inv have "untouched (paymentCounter s + 1) s" by (simp add: invariant_def)
    then have un: "legs (FeeLeg (paymentCounter s + 1)) (deposit sender v s) = []"
      "legs (RecipientLeg (paymentCounter s + 1)) (deposit sender v s) = []"
      by (simp_all add: untouched_def)
    from exec_create_Inr [OF run] have c:
      "createPayment ?gw sender v (block_timestamp env) rc d (deposit sender v s) =
         Inr (paymentCounter s + 1, s')" by simp
    from createPayment_trace [OF gateway_at_ok c] un show ?thesis by auto
  qed
  from 1 2 3 4 5 6 7 8 show ?thesis by blast
qed

theorem status_written_before_transfer_witness:
  "invariant nofee2 \<and> exec reentrant 3 10 (RefundPayment 2) nofee2 = Inr nofee3r \<and>
   code reentrant 10 1 (credit (RefundLeg 2) 10 20 (set_status 2 Refunded nofee2)) =
     Invoke 10 (RefundPayment 2) \<and>
   status (payments (credit (RefundLeg 2) 10 20 (set_status 2 Refunded nofee2)) 2) = Refunded \<and>
   isl (refundPayment (gateway_at reentrant 2) 10 2
          (credit (RefundLeg 2) 10 20 (set_status 2 Refunded nofee2))) \<and>
   legs (RefundLeg 2) nofee2 = [] \<and>
   legs (RefundLeg 2) nofee3r = [(RefundLeg 2, 10, 20)] \<and>
   invariant pending1 \<and> exec quiet 2 10 (CancelPayment 1) pending1 = Inr cancelled1 \<and>
   legs (CancelLeg 1) cancelled1 = [(CancelLeg 1, 10, 30)] \<and>
   invariant demo0 \<and> exec quiet 2 10 (CreatePayment 11 [] 1000) demo0 = Inr demo1 \<and>
   length (legs (RecipientLeg 1) demo1) = 1 \<and>
   status (payments demo1 1) = Completed \<and>
   completePayment (gateway_at reentrant 2) 1 demo1 = Inl PaymentNotPending \<and>
   1 = paymentCounter escrow1 \<and>
   completePayment
     (\<lambda>p to v t.
        if status (payments t 1) = Completed \<or> status (payments t 1) = Refunded
        then gateway_at quiet 2 p to v t else None) 1 escrow1 = Inr demo1"
proof -
  let ?t = "credit (RefundLeg 2) 10 20 (set_status 2 Refunded nofee2)"
  have e: "1 = paymentCounter escrow1" by (simp add: escrow1_eq)
  have "createPayment (gateway_at quiet 2) 10 1000 (block_timestamp quiet) 11 []
      (deposit 10 1000 demo0) = Inr (paymentCounter demo0 + 1, demo1)"
    using exec_create_Inr [OF demo1_run] by simp
  from createPayment_Inr [OF this]
  have "completePayment (gateway_at quiet 2) 1 escrow1 = Inr demo1"
    by (simp add: escrow1_def quiet_def demo0_eq)
  with status_written_before_transfer [where s = escrow1 and i = 1 and env = quiet and n = 2] e
  have w6: "completePayment
     (\<lambda>p to v t.
        if status (payments t 1) = Completed \<or> status (payments t 1) = Refunded
        then gateway_at quiet 2 p to v t else None) 1 escrow1 = Inr demo1"
    by simp
  have i: "invariant nofee2" by (rule reachable_invariant [OF reachable_nofee2])
  have i0: "invariant demo0" by (rule reachable_invariant [OF reachable_demo0])
  have c: "code reentrant 10 1 ?t = Invoke 10 (RefundPayment 2)" by (simp add: reentrant_def)
  have st: "status (payments ?t 2) = Refunded" by simp
  have a: "payer (payments nofee2 2) = 10" "amount (payments nofee2 2) = 20"
    "payer (payments pending1 1) = 10" "amount (payments pending1 1) = 30"
    "paymentCounter demo0 = 0" "status (payments demo1 1) = Completed"
    by (simp_all add: nofee2_eq pending1_eq demo0_eq demo1_eq)
  from status_written_before_transfer [where t = ?t and i = 2 and gw' = "gateway_at reentrant 2"
      and a = 10] st
  have w1: "isl (refundPayment (gateway_at reentrant 2) 10 2 ?t)" by blast
  from status_written_before_transfer [where s = nofee2 and i = 2 and env = reentrant
      and n = 3 and sender = 10 and s' = nofee3r] i nofee3r_run
  have "legs (RefundLeg 2) nofee2 = [] \<and>
      legs (RefundLeg 2) nofee3r =
        [(RefundLeg 2, payer (payments nofee2 2), amount (payments nofee2 2))]" by blast
  with a have w2: "legs (RefundLeg 2) nofee2 = [] \<and>
      legs (RefundLeg 2) nofee3r = [(RefundLeg 2, 10, 20)]" by simp
  from status_written_before_transfer [where s = pending1 and i = 1 and env = quiet
      and n = 2 and sender = 10 and s' = cancelled1] invariant_pending1 cancelled1_run
  have "legs (CancelLeg 1) cancelled1 =
        [(CancelLeg 1, payer (payments pending1 1), amount (payments pending1 1))]" by blast
  with a have w3: "legs (CancelLeg 1) cancelled1 = [(CancelLeg 1, 10, 30)]" by simp
  from status_written_before_transfer [where s = demo0 and env = quiet
      and n = 2 and sender = 10 and s' = demo1 and rc = 11 and d = "[]" and v = 1000]
    i0 demo1_run
  have "length (legs (RecipientLeg (paymentCounter demo0 + 1)) demo1) = 1" by blast
  with a have w4: "length (legs (RecipientLeg 1) demo1) = 1" by simp
  from status_written_before_transfer [where t = demo1 and i = 1
      and gw' = "gateway_at reentrant 2"] a(6)
  have w5: "completePayment (gateway_at reentrant 2) 1 demo1 = Inl PaymentNotPending" by blast
  from i i0 c st w1 w2 w3 w4 w5 w6 e a(6) nofee3r_run cancelled1_run demo1_run
    invariant_pending1
  show ?thesis by blast
qed

subsection \<open>C3: a failed transfer reverts the whole call\<close>

text \<open>
  C3: in a refund, a cancellation and a completion, when the transfer call of a leg fails
  the function reverts with the error of that leg ("Refund transfer failed", "Cancel
  transfer failed", "Fee transfer failed", "Payment transfer failed"); this also holds
  for the recipient leg after a fee leg that went through, and \<^verbatim>\<open>createPayment\<close>
  reverts with the error of its completion. A call that reverts leaves the state of the
  transaction as it was: status, ledger and balances.
\<close>

theorem failed_transfer_reverts:
  "(exists (payments s i) \<and> (sender = payer (payments s i) \<or> sender = owner s) \<and>
    (status (payments s i) = Pending \<or> status (payments s i) = Completed) \<and>
    gw (RefundLeg i) (payer (payments s i)) (amount (payments s i)) (set_status i Refunded s)
      = None \<longrightarrow>
      refundPayment gw sender i s = Inl RefundTransferFailed) \<and>
   (exists (payments s i) \<and> (sender = payer (payments s i) \<or> sender = owner s) \<and>
    status (payments s i) = Pending \<and>
    gw (CancelLeg i) (payer (payments s i)) (amount (payments s i)) (set_status i Cancelled s)
      = None \<longrightarrow>
      cancelPayment gw sender i s = Inl CancelTransferFailed) \<and>
   (status (payments s i) = Pending \<and>
    split (amount (payments s i)) (platformFeeBps s) = Some (f, r) \<and>
    0 < f \<and> feeRecipient s \<noteq> 0 \<and>
    gw (FeeLeg i) (feeRecipient s) f (set_status i Completed s) = None \<longrightarrow>
      completePayment gw i s = Inl FeeTransferFailed) \<and>
   (status (payments s i) = Pending \<and>
    split (amount (payments s i)) (platformFeeBps s) = Some (f, r) \<and>
    pay_fee gw i f (set_status i Completed s) = Inr s2 \<and>
    gw (RecipientLeg i) (recipient (payments s2 i)) r s2 = None \<longrightarrow>
      completePayment gw i s = Inl PaymentTransferFailed) \<and>
   (recipient0 \<noteq> 0 \<and> recipient0 \<noteq> sender \<and> 0 < v \<and> paymentCounter s + 1 \<le> uint256_max \<and>
    completePayment gw (paymentCounter s + 1)
      (emit (PaymentCreated (paymentCounter s + 1) sender recipient0 v d)
         (store_payment sender
            \<lparr>payment_id = paymentCounter s + 1, payer = sender, recipient = recipient0,
             amount = v, timestamp = now, status = Pending, description = d,
             exists = True\<rparr> s)) = Inl e \<longrightarrow>
      createPayment gw sender v now recipient0 d s = Inl e) \<and>
   (exec env n sender c s = Inl e \<longrightarrow> transact env n sender c s = s)"
  by (auto simp: refundPayment_def cancelPayment_def completePayment_def pay_fee_def
      pay_recipient_def createPayment_def checked_add_def transact_def Let_def)

theorem failed_transfer_reverts_witness:
  "exists (payments pending1 1) \<and> 10 = payer (payments pending1 1) \<and>
   status (payments pending1 1) = Pending \<and>
   refundPayment (gateway_at quiet 0) 10 1 pending1 = Inl RefundTransferFailed \<and>
   cancelPayment (gateway_at quiet 0) 10 1 pending1 = Inl CancelTransferFailed \<and>
   status (payments escrow1 1) = Pending \<and>
   split (amount (payments escrow1 1)) (platformFeeBps escrow1) = Some (2, 998) \<and>
   completePayment (gateway_at quiet 0) 1 escrow1 = Inl FeeTransferFailed \<and>
   pay_fee (gateway_at rejecting 2) 1 2 (set_status 1 Completed escrow1) =
     Inr (credit (FeeLeg 1) 2 2 (set_status 1 Completed escrow1)) \<and>
   completePayment (gateway_at rejecting 2) 1 escrow1 = Inl PaymentTransferFailed \<and>
   exec rejecting 2 10 (CreatePayment 11 [] 1000) demo0 = Inl PaymentTransferFailed \<and>
   transact rejecting 2 10 (CreatePayment 11 [] 1000) demo0 = demo0"
proof -
  let ?gw = "gateway_at rejecting 2"
  let ?s1 = "set_status 1 Completed escrow1"
  let ?s2 = "credit (FeeLeg 1) 2 2 ?s1"
  have p: "exists (payments pending1 1)" "10 = payer (payments pending1 1)"
    "status (payments pending1 1) = Pending"
    by (simp_all add: pending1_eq)
  have none: "gateway_at quiet 0 p to v s = None" for p to v s
    by (simp add: gateway_at_def)
  have e: "status (payments escrow1 1) = Pending"
    "split (amount (payments escrow1 1)) (platformFeeBps escrow1) = Some (2, 998)"
    "feeRecipient escrow1 \<noteq> 0"
    by (simp_all add: escrow1_eq split_def checked_mul_def checked_sub_def uint256_max_def)
  have fee: "pay_fee ?gw 1 2 ?s1 = Inr ?s2"
    by (simp add: escrow1_eq rejecting_def pay_fee_def gateway_at_def send_def
        run_receiver_unfold set_status_def credit_def)
  have rec: "?gw (RecipientLeg 1) (recipient (payments ?s2 1)) 998 ?s2 = None"
    by (simp add: escrow1_eq rejecting_def gateway_at_def send_def
        run_receiver_unfold set_status_def credit_def)
  have ex: "exec rejecting 2 10 (CreatePayment 11 [] 1000) demo0 = Inl PaymentTransferFailed"
    unfolding demo0_eq rejecting_def by (simp add: run_defs funds_def)
  from p none e fee rec ex
    failed_transfer_reverts [where s = pending1 and i = 1 and sender = 10
      and gw = "gateway_at quiet 0"]
    failed_transfer_reverts [where s = escrow1 and i = 1 and gw = ?gw and f = 2 and r = 998
      and ?s2.0 = ?s2]
    failed_transfer_reverts [where s = escrow1 and i = 1 and gw = "gateway_at quiet 0"
      and f = 2 and r = 998]
    failed_transfer_reverts [where env = rejecting and n = 2 and sender = 10
      and c = "CreatePayment 11 [] 1000" and s = demo0 and e = PaymentTransferFailed]
  show ?thesis by simp
qed

subsection \<open>C4: a refund returns the full amount\<close>

text \<open>
  C4: when \<^verbatim>\<open>refundPayment\<close> succeeds, in a state that satisfies the invariant of the
  ledger (every reachable state does), the caller is the payer or the owner, the payment
  existed with status Pending or Completed, and the call made exactly one refund
  transfer: to the payer, of the whole amount of the payment. The receiver of that
  transfer starts with the payer's balance raised by the amount. The legs of the
  completion stay in the trace as they were: no fee comes back. The status ends as
  Refunded, whatever the receivers did meanwhile.
\<close>

theorem refund_returns_full_amount:
  assumes "invariant s" and "exec env n sender (RefundPayment i) s = Inr s'"
  shows
    "exists (payments s i) \<and> (sender = payer (payments s i) \<or> sender = owner s) \<and>
     (status (payments s i) = Pending \<or> status (payments s i) = Completed) \<and>
     status (payments s' i) = Refunded \<and>
     amount (payments s' i) = amount (payments s i) \<and>
     legs (RefundLeg i) s = [] \<and>
     legs (RefundLeg i) s' = [(RefundLeg i, payer (payments s i), amount (payments s i))] \<and>
     legs (FeeLeg i) s' = legs (FeeLeg i) s \<and>
     legs (RecipientLeg i) s' = legs (RecipientLeg i) s \<and>
     (\<exists>m t s2.
        n = Suc m \<and>
        t = credit (RefundLeg i) (payer (payments s i)) (amount (payments s i))
              (set_status i Refunded s) \<and>
        amount (payments s i) \<le> balances s (self s) \<and>
        balances t (payer (payments s i)) =
          balances s (payer (payments s i)) + amount (payments s i) \<and>
        balances t (self s) = balances s (self s) - amount (payments s i) \<and>
        run_receiver env (exec env m) (payer (payments s i)) m t = Some s2 \<and>
        s' = emit (PaymentRefunded i (payer (payments s i)) (amount (payments s i))) s2)"
proof -
  from assms(2) have r: "refundPayment (gateway_at env n) sender i s = Inr s'"
    by (simp add: exec_refund)
  note res = refundPayment_result [OF gateway_at_ok assms(1) r]
  let ?p = "payer (payments s i)" and ?a = "amount (payments s i)"
  let ?t = "credit (RefundLeg i) ?p ?a (set_status i Refunded s)"
  from r res(1,2,3) obtain s2 where
    call: "gateway_at env n (RefundLeg i) ?p ?a (set_status i Refunded s) = Some s2"
    and s': "s' = emit (PaymentRefunded i (payer (payments s2 i)) ?a) s2"
    by (auto simp: refundPayment_def Let_def split: if_splits option.splits)
  from call obtain m where n: "n = Suc m"
    by (cases n) (simp_all add: gateway_at_def)
  from call n have ok: "?a \<le> balances s (self s)" "?p \<noteq> self s"
    and run: "run_receiver env (exec env m) ?p m ?t = Some s2"
    by (auto simp: gateway_at_def send_def split: if_splits)
  have b: "balances ?t ?p = balances s ?p + ?a" "balances ?t (self s) = balances s (self s) - ?a"
    using ok by (simp_all add: credit_def set_status_def)
  from res(5) have p2: "payer (payments s2 i) = ?p" by (simp add: s' frozen_def)
  from res(5) have am: "amount (payments s' i) = ?a" by (simp add: frozen_def)
  have "\<exists>m t s2.
        n = Suc m \<and> t = ?t \<and> ?a \<le> balances s (self s) \<and>
        balances t ?p = balances s ?p + ?a \<and>
        balances t (self s) = balances s (self s) - ?a \<and>
        run_receiver env (exec env m) ?p m t = Some s2 \<and>
        s' = emit (PaymentRefunded i ?p ?a) s2"
    using n ok(1) b run s' p2 by auto
  with res am show ?thesis by blast
qed

theorem refund_returns_full_amount_witness:
  "invariant funded1 \<and> exec quiet 2 10 (RefundPayment 1) funded1 = Inr funded2 \<and>
   status (payments funded1 1) = Completed \<and> amount (payments funded1 1) = 1000 \<and>
   legs (FeeLeg 1) funded1 = [(FeeLeg 1, 2, 2)] \<and>
   10 = payer (payments funded1 1) \<and>
   status (payments funded2 1) = Refunded \<and>
   legs (RefundLeg 1) funded2 = [(RefundLeg 1, 10, 1000)] \<and>
   legs (FeeLeg 1) funded2 = [(FeeLeg 1, 2, 2)] \<and>
   balances funded2 10 = balances funded1 10 + 1000"
proof -
  have i: "invariant funded1" by (rule reachable_invariant [OF reachable_funded1])
  have a: "status (payments funded1 1) = Completed" "amount (payments funded1 1) = 1000"
    "legs (FeeLeg 1) funded1 = [(FeeLeg 1, 2, 2)]" "10 = payer (payments funded1 1)"
    "balances funded2 10 = balances funded1 10 + 1000"
    by (simp_all add: funded1_eq funded2_eq legs_def)
  from refund_returns_full_amount [OF i funded2_run]
  have w: "status (payments funded2 1) = Refunded \<and>
    legs (RefundLeg 1) funded2 =
      [(RefundLeg 1, payer (payments funded1 1), amount (payments funded1 1))] \<and>
    legs (FeeLeg 1) funded2 = legs (FeeLeg 1) funded1" by blast
  with a(1-4) have "status (payments funded2 1) = Refunded \<and>
    legs (RefundLeg 1) funded2 = [(RefundLeg 1, 10, 1000)] \<and>
    legs (FeeLeg 1) funded2 = [(FeeLeg 1, 2, 2)]" by simp
  with i funded2_run a show ?thesis by blast
qed

subsection \<open>C5: the fee split\<close>

text \<open>
  C5, as stated, fails at an amount and a rate of the type \<^verbatim>\<open>uint256\<close> whose product
  is beyond the type: the multiplication of line 147 panics and the split computes
  nothing. It also fails at a rate above 10000, where the fee exceeds the amount and the
  subtraction of line 148 panics.
\<close>

theorem split_overflow_counterexample:
  "(2::nat) ^ 255 \<le> uint256_max \<and> (2::nat) \<le> 1000 \<and> split (2 ^ 255) 2 = None \<and>
   split 1 20000 = None"
  by (simp add: split_def checked_mul_def checked_sub_def uint256_max_def)

text \<open>
  C5, amended: for every amount and rate whose product fits \<^verbatim>\<open>uint256\<close>, with the rate
  at most 10000, the split is \<open>feeAmount = amt * feeBps div 10000\<close> and
  \<open>recipientAmount = amt - feeAmount\<close>, and the two add up to the amount; when the
  product does not fit, or the fee exceeds the amount, the split reverts.
\<close>

theorem split_in_range:
  "(amt * feeBps \<le> uint256_max \<and> feeBps \<le> 10000 \<longrightarrow>
      split amt feeBps = Some (amt * feeBps div 10000, amt - amt * feeBps div 10000) \<and>
      amt * feeBps div 10000 + (amt - amt * feeBps div 10000) = amt) \<and>
   (uint256_max < amt * feeBps \<longrightarrow> split amt feeBps = None) \<and>
   (amt < amt * feeBps div 10000 \<longrightarrow> split amt feeBps = None)"
proof -
  have "amt * feeBps div 10000 \<le> amt" if "feeBps \<le> 10000"
  proof -
    from that have "amt * feeBps \<le> amt * 10000" by simp
    then have "amt * feeBps div 10000 \<le> amt * 10000 div 10000" by (rule div_le_mono)
    then show ?thesis by simp
  qed
  then show ?thesis
    by (auto simp: split_def checked_mul_def checked_sub_def Let_def)
qed

theorem split_in_range_witness:
  "((1000::nat) * 25 \<le> uint256_max \<and> (25::nat) \<le> 10000) \<and>
   split 1000 25 = Some (2, 998) \<and> (2::nat) + 998 = 1000 \<and>
   uint256_max < 2 ^ 255 * 2 \<and> split (2 ^ 255) 2 = None \<and>
   (1::nat) < 1 * 20000 div 10000 \<and> split 1 20000 = None"
proof -
  have a: "(1000::nat) * 25 \<le> uint256_max \<and> (25::nat) \<le> 10000"
    by (simp add: uint256_max_def)
  have b: "uint256_max < 2 ^ 255 * 2" by (simp add: uint256_max_def)
  have c: "(1::nat) < 1 * 20000 div 10000" by simp
  from a b c split_in_range [of 1000 25] split_in_range [of "2 ^ 255" 2]
    split_in_range [of 1 20000]
  show ?thesis by simp
qed

subsection \<open>C6: the guards on the status\<close>

text \<open>
  C6: \<^verbatim>\<open>cancelPayment\<close> succeeds only on a pending payment and
  \<^verbatim>\<open>refundPayment\<close> only on a pending or completed one. Once the status is Refunded or
  Cancelled both revert, whoever calls, and the state stays as it was; for the payer and
  the owner the reasons are "Only pending payments can be cancelled" and "Cannot refund
  this payment". After a refund that succeeded in a state that satisfies the invariant
  of the ledger, whatever the receivers did meanwhile, a second refund of the same
  payment reverts.
\<close>

theorem cancel_refund_status_guards:
  "(exec env n sender (CancelPayment i) s = Inr s' \<longrightarrow> status (payments s i) = Pending) \<and>
   (exec env n sender (RefundPayment i) s = Inr s' \<longrightarrow>
      status (payments s i) = Pending \<or> status (payments s i) = Completed) \<and>
   (status (payments s i) = Refunded \<or> status (payments s i) = Cancelled \<longrightarrow>
      isl (exec env n sender (CancelPayment i) s) \<and>
      isl (exec env n sender (RefundPayment i) s) \<and>
      transact env n sender (CancelPayment i) s = s \<and>
      transact env n sender (RefundPayment i) s = s \<and>
      (exists (payments s i) \<and> (sender = payer (payments s i) \<or> sender = owner s) \<longrightarrow>
         exec env n sender (CancelPayment i) s = Inl OnlyPendingCancellable \<and>
         exec env n sender (RefundPayment i) s = Inl CannotRefund)) \<and>
   (invariant s \<and> exec env n sender (RefundPayment i) s = Inr s' \<longrightarrow>
      exec env' n' sender (RefundPayment i) s' = Inl CannotRefund \<and>
      (\<forall>a. isl (exec env' n' a (RefundPayment i) s')))"
proof -
  have 1: "status (payments s i) = Pending" if "exec env n sender (CancelPayment i) s = Inr s'"
    using that by (auto simp: exec_cancel cancelPayment_def split: if_splits)
  have 2: "status (payments s i) = Pending \<or> status (payments s i) = Completed"
    if "exec env n sender (RefundPayment i) s = Inr s'"
    using that by (auto simp: exec_refund refundPayment_def split: if_splits)
  have 3: "isl (exec env n sender (CancelPayment i) s) \<and>
      isl (exec env n sender (RefundPayment i) s) \<and>
      transact env n sender (CancelPayment i) s = s \<and>
      transact env n sender (RefundPayment i) s = s \<and>
      (exists (payments s i) \<and> (sender = payer (payments s i) \<or> sender = owner s) \<longrightarrow>
         exec env n sender (CancelPayment i) s = Inl OnlyPendingCancellable \<and>
         exec env n sender (RefundPayment i) s = Inl CannotRefund)"
    if "status (payments s i) = Refunded \<or> status (payments s i) = Cancelled"
    using that
    by (auto simp: transact_def exec_cancel exec_refund cancelPayment_def refundPayment_def)
  have 4: "exec env' n' sender (RefundPayment i) s' = Inl CannotRefund \<and>
      (\<forall>a. isl (exec env' n' a (RefundPayment i) s'))"
    if inv: "invariant s" and run: "exec env n sender (RefundPayment i) s = Inr s'"
  proof -
    from run have r: "refundPayment (gateway_at env n) sender i s = Inr s'"
      by (simp add: exec_refund)
    note res = refundPayment_result [OF gateway_at_ok inv r]
    from refundPayment_sound [OF gateway_at_ok r] have "owner s' = owner s"
      by (simp add: sound_def evolves_def)
    with res(1,2,4,5) show ?thesis
      by (auto simp: exec_refund refundPayment_def frozen_def)
  qed
  from 1 2 3 4 show ?thesis by blast
qed

theorem cancel_refund_status_guards_witness:
  "exec quiet 2 10 (CancelPayment 1) pending1 = Inr cancelled1 \<and>
   status (payments pending1 1) = Pending \<and>
   exec quiet 2 10 (RefundPayment 2) nofee2 = Inr nofee3 \<and>
   status (payments nofee2 2) = Completed \<and>
   status (payments nofee3 2) = Refunded \<and> status (payments cancelled1 1) = Cancelled \<and>
   exists (payments nofee3 2) \<and> 10 = payer (payments nofee3 2) \<and>
   exec quiet 2 10 (CancelPayment 2) nofee3 = Inl OnlyPendingCancellable \<and>
   exec quiet 2 10 (RefundPayment 2) nofee3 = Inl CannotRefund \<and>
   transact quiet 2 10 (RefundPayment 2) nofee3 = nofee3 \<and>
   exec quiet 2 10 (CancelPayment 1) cancelled1 = Inl OnlyPendingCancellable \<and>
   exec quiet 2 10 (RefundPayment 1) cancelled1 = Inl CannotRefund \<and>
   invariant nofee2 \<and>
   isl (exec reentrant 3 1 (RefundPayment 2) nofee3)"
proof -
  have a: "status (payments nofee3 2) = Refunded" "exists (payments nofee3 2)"
    "10 = payer (payments nofee3 2)" "status (payments nofee2 2) = Completed"
    by (simp_all add: nofee3_eq nofee2_eq)
  have b: "status (payments cancelled1 1) = Cancelled" "exists (payments cancelled1 1)"
    "10 = payer (payments cancelled1 1)"
    by (simp_all add: cancelled1_eq)
  have i: "invariant nofee2" by (rule reachable_invariant [OF reachable_nofee2])
  from cancel_refund_status_guards [of quiet 2 10 1 pending1 cancelled1] cancelled1_run
  have w1: "status (payments pending1 1) = Pending" by blast
  from cancel_refund_status_guards [of quiet 2 10 2 nofee3] a
  have w2: "exec quiet 2 10 (CancelPayment 2) nofee3 = Inl OnlyPendingCancellable \<and>
    exec quiet 2 10 (RefundPayment 2) nofee3 = Inl CannotRefund \<and>
    transact quiet 2 10 (RefundPayment 2) nofee3 = nofee3" by blast
  from cancel_refund_status_guards [of quiet 2 10 1 cancelled1] b
  have w3: "exec quiet 2 10 (CancelPayment 1) cancelled1 = Inl OnlyPendingCancellable \<and>
    exec quiet 2 10 (RefundPayment 1) cancelled1 = Inl CannotRefund" by blast
  from cancel_refund_status_guards [of quiet 2 10 2 nofee2 nofee3 reentrant 3] i nofee3_run
  have w4: "isl (exec reentrant 3 1 (RefundPayment 2) nofee3)" by blast
  from a b i cancelled1_run nofee3_run w1 w2 w3 w4 show ?thesis by blast
qed

subsection \<open>C7: callers without the right, and payments that do not exist\<close>

text \<open>
  C7: on a payment that exists, \<^verbatim>\<open>cancelPayment\<close> and \<^verbatim>\<open>refundPayment\<close> by a caller
  who is neither its payer nor the owner revert with "Unauthorized" and change nothing;
  on an id whose payment does not exist they revert with "Payment does not exist". In a
  reachable state the payments that exist are those with ids from 1 to the counter.
\<close>

theorem cancel_refund_unauthorized_or_unknown:
  "(exists (payments s i) \<and> sender \<noteq> payer (payments s i) \<and> sender \<noteq> owner s \<longrightarrow>
      exec env n sender (CancelPayment i) s = Inl Unauthorized \<and>
      exec env n sender (RefundPayment i) s = Inl Unauthorized \<and>
      transact env n sender (CancelPayment i) s = s \<and>
      transact env n sender (RefundPayment i) s = s) \<and>
   (\<not> exists (payments s i) \<longrightarrow>
      exec env n sender (CancelPayment i) s = Inl PaymentDoesNotExist \<and>
      exec env n sender (RefundPayment i) s = Inl PaymentDoesNotExist \<and>
      transact env n sender (CancelPayment i) s = s \<and>
      transact env n sender (RefundPayment i) s = s) \<and>
   (reachable s \<longrightarrow> (exists (payments s i) \<longleftrightarrow> 1 \<le> i \<and> i \<le> paymentCounter s))"
proof -
  have "exists (payments s i) \<longleftrightarrow> 1 \<le> i \<and> i \<le> paymentCounter s" if "reachable s"
    using reachable_invariant [OF that] by (simp add: invariant_def)
  then show ?thesis
    by (auto simp: transact_def exec_refund exec_cancel refundPayment_def cancelPayment_def)
qed

theorem cancel_refund_unauthorized_or_unknown_witness:
  "(exists (payments demo1 1) \<and> 99 \<noteq> payer (payments demo1 1) \<and> 99 \<noteq> owner demo1) \<and>
   exec quiet 2 99 (CancelPayment 1) demo1 = Inl Unauthorized \<and>
   exec quiet 2 99 (RefundPayment 1) demo1 = Inl Unauthorized \<and>
   transact quiet 2 99 (RefundPayment 1) demo1 = demo1 \<and>
   \<not> exists (payments demo1 5) \<and>
   exec quiet 2 10 (CancelPayment 5) demo1 = Inl PaymentDoesNotExist \<and>
   exec quiet 2 10 (RefundPayment 5) demo1 = Inl PaymentDoesNotExist \<and>
   reachable demo1 \<and> paymentCounter demo1 = 1"
proof -
  have a: "exists (payments demo1 1) \<and> 99 \<noteq> payer (payments demo1 1) \<and> 99 \<noteq> owner demo1"
    by (simp add: demo1_eq)
  have b: "\<not> exists (payments demo1 5)" by (simp add: demo1_eq zero_payment_def)
  have c: "paymentCounter demo1 = 1" by (simp add: demo1_eq)
  from a b c reachable_demo1
    cancel_refund_unauthorized_or_unknown [of demo1 1 99 quiet 2]
    cancel_refund_unauthorized_or_unknown [of demo1 5 10 quiet 2]
  show ?thesis by blast
qed

subsection \<open>C8: the checks and the effects of a creation\<close>

text \<open>
  C8, as stated, fails for the status at the end of the operation. The contract is
  deployed with the null fee recipient and account 10 has paid 10000 to account 11.
  Account 10 then pays 20 to account 11, whose code, on receiving the 20, has account 10
  call \<^verbatim>\<open>refundPayment(2)\<close>. The status of payment 2 is Completed at that point (line
  144 precedes the transfer of line 161), so the refund passes the guard of lines
  179-183, writes Refunded and sends 20 to account 10. The creation then succeeds with
  id 2, and the status of payment 2 when it returns is Refunded, not Completed.
\<close>

theorem completed_at_return_counterexample:
  "reachable nofee1 \<and> paymentCounter nofee1 = 1 \<and>
   exec refunding 3 10 (CreatePayment 11 [] 20) nofee1 = Inr swift2 \<and>
   createPayment (gateway_at refunding 3) 10 20 1700000000 11 [] (deposit 10 20 nofee1) =
     Inr (2, swift2) \<and>
   reachable swift2 \<and>
   payments swift2 2 =
     \<lparr>payment_id = 2, payer = 10, recipient = 11, amount = 20, timestamp = 1700000000,
      status = Refunded, description = [], exists = True\<rparr> \<and>
   status (payments swift2 2) \<noteq> Completed \<and>
   userPayments swift2 10 = [1, 2] \<and>
   transfers swift2 =
     [(RecipientLeg 1, 11, 9975), (RecipientLeg 2, 11, 20), (RefundLeg 2, 10, 20)]"
proof -
  have run: "createPayment (gateway_at refunding 3) 10 20 1700000000 11 []
      (deposit 10 20 nofee1) = Inr (2, swift2)"
    using exec_create_Inr [OF swift2_run] by (simp add: refunding_def nofee1_eq)
  have r: "reachable swift2" unfolding swift2_def by (intro reachable.intros reachable_nofee1)
  have c: "paymentCounter nofee1 = 1" by (simp add: nofee1_eq)
  have s: "payments swift2 2 =
     \<lparr>payment_id = 2, payer = 10, recipient = 11, amount = 20, timestamp = 1700000000,
      status = Refunded, description = [], exists = True\<rparr> \<and>
   status (payments swift2 2) \<noteq> Completed \<and>
   userPayments swift2 10 = [1, 2] \<and>
   transfers swift2 =
     [(RecipientLeg 1, 11, 9975), (RecipientLeg 2, 11, 20), (RefundLeg 2, 10, 20)]"
    by (simp add: swift2_eq)
  from reachable_nofee1 c swift2_run run r s show ?thesis by blast
qed

text \<open>
  C8, amended: \<^verbatim>\<open>createPayment\<close> reverts with "Invalid recipient" for the null
  recipient, with "Cannot pay yourself" for the caller as recipient, and with "Amount
  must be greater than 0" for a value of zero (in this order). When it succeeds, the id
  is the counter plus one, hence at least 1 and above every earlier id; the record under
  that id holds the caller, the recipient, the value, the time and the description; the
  id is appended to the caller's index; and the status is set to Completed before the
  first transfer is made. When the call returns the status is Completed or Refunded:
  from a state that satisfies the invariant (every reachable state does) it is Refunded
  exactly when a refund transfer has been issued for the new payment during the call,
  and Completed exactly when none has. With receivers that do not call back it is
  Completed, the counter is the new id and the index is the old one with the id at its
  end.
\<close>

theorem createPayment_checks_and_effects:
  "(recipient0 = 0 \<longrightarrow>
      createPayment gw sender v now recipient0 d s = Inl InvalidRecipient) \<and>
   (recipient0 \<noteq> 0 \<and> recipient0 = sender \<longrightarrow>
      createPayment gw sender v now recipient0 d s = Inl CannotPayYourself) \<and>
   (recipient0 \<noteq> 0 \<and> recipient0 \<noteq> sender \<and> v = 0 \<longrightarrow>
      createPayment gw sender v now recipient0 d s = Inl AmountMustBePositive) \<and>
   (v = 0 \<longrightarrow> isl (createPayment gw sender v now recipient0 d s)) \<and>
   (createPayment (gateway_at env n) sender v now recipient0 d s = Inr (i, s') \<longrightarrow>
      recipient0 \<noteq> 0 \<and> recipient0 \<noteq> sender \<and> 0 < v \<and>
      i = paymentCounter s + 1 \<and> 1 \<le> i \<and> paymentCounter s < i \<and> i \<le> paymentCounter s' \<and>
      payments s' i =
        \<lparr>payment_id = i, payer = sender, recipient = recipient0, amount = v,
         timestamp = now, status = status (payments s' i), description = d,
         exists = True\<rparr> \<and>
      prefix (userPayments s sender @ [i]) (userPayments s' sender) \<and>
      (\<exists>f r s2.
         split v (platformFeeBps s) = Some (f, r) \<and>
         pay_fee (gateway_at env n) i f
           (set_status i Completed
              (emit (PaymentCreated i sender recipient0 v d)
                 (store_payment sender
                    \<lparr>payment_id = i, payer = sender, recipient = recipient0, amount = v,
                     timestamp = now, status = Pending, description = d,
                     exists = True\<rparr> s))) = Inr s2) \<and>
      (status (payments s' i) = Completed \<or> status (payments s' i) = Refunded) \<and>
      (invariant s \<longrightarrow>
         (status (payments s' i) = Refunded \<longleftrightarrow> legs (RefundLeg i) s' \<noteq> []) \<and>
         (status (payments s' i) = Completed \<longleftrightarrow> legs (RefundLeg i) s' = [])) \<and>
      (no_callbacks env \<longrightarrow>
         status (payments s' i) = Completed \<and> paymentCounter s' = i \<and>
         userPayments s' sender = userPayments s sender @ [i]))"
proof -
  have fail: "(recipient0 = 0 \<longrightarrow>
      createPayment gw sender v now recipient0 d s = Inl InvalidRecipient) \<and>
   (recipient0 \<noteq> 0 \<and> recipient0 = sender \<longrightarrow>
      createPayment gw sender v now recipient0 d s = Inl CannotPayYourself) \<and>
   (recipient0 \<noteq> 0 \<and> recipient0 \<noteq> sender \<and> v = 0 \<longrightarrow>
      createPayment gw sender v now recipient0 d s = Inl AmountMustBePositive) \<and>
   (v = 0 \<longrightarrow> isl (createPayment gw sender v now recipient0 d s))"
    by (simp add: createPayment_def)
  let ?gw = "gateway_at env n"
  let ?p = "\<lparr>payment_id = i, payer = sender, recipient = recipient0, amount = v,
             timestamp = now, status = Pending, description = d, exists = True\<rparr>"
  let ?t = "emit (PaymentCreated i sender recipient0 v d) (store_payment sender ?p s)"
  have ok: "recipient0 \<noteq> 0 \<and> recipient0 \<noteq> sender \<and> 0 < v \<and>
      i = paymentCounter s + 1 \<and> 1 \<le> i \<and> paymentCounter s < i \<and> i \<le> paymentCounter s' \<and>
      payments s' i =
        \<lparr>payment_id = i, payer = sender, recipient = recipient0, amount = v,
         timestamp = now, status = status (payments s' i), description = d,
         exists = True\<rparr> \<and>
      prefix (userPayments s sender @ [i]) (userPayments s' sender) \<and>
      (\<exists>f r s2.
         split v (platformFeeBps s) = Some (f, r) \<and>
         pay_fee ?gw i f (set_status i Completed ?t) = Inr s2) \<and>
      (status (payments s' i) = Completed \<or> status (payments s' i) = Refunded) \<and>
      (invariant s \<longrightarrow>
         (status (payments s' i) = Refunded \<longleftrightarrow> legs (RefundLeg i) s' \<noteq> []) \<and>
         (status (payments s' i) = Completed \<longleftrightarrow> legs (RefundLeg i) s' = [])) \<and>
      (no_callbacks env \<longrightarrow>
         status (payments s' i) = Completed \<and> paymentCounter s' = i \<and>
         userPayments s' sender = userPayments s sender @ [i])"
    if run: "createPayment ?gw sender v now recipient0 d s = Inr (i, s')"
  proof -
    note inr = createPayment_Inr [OF run]
    from inr have a: "recipient0 \<noteq> 0" "recipient0 \<noteq> sender" "0 < v"
      "i = paymentCounter s + 1" and c: "completePayment ?gw i ?t = Inr s'"
      by blast+
    from createPayment_trace [OF gateway_at_ok run] have b:
      "payments s' i =
        \<lparr>payment_id = i, payer = sender, recipient = recipient0, amount = v,
         timestamp = now, status = status (payments s' i), description = d,
         exists = True\<rparr>"
      "status (payments s' i) = Completed \<or> status (payments s' i) = Refunded"
      "i \<le> paymentCounter s'"
      "prefix (userPayments s sender @ [i]) (userPayments s' sender)"
      by blast+
    from completePayment_Inr [OF c] obtain f r s2 s3 where
      sp: "split (amount (payments ?t i)) (platformFeeBps ?t) = Some (f, r)"
      and fee: "pay_fee ?gw i f (set_status i Completed ?t) = Inr s2"
      and rec: "?gw (RecipientLeg i) (recipient (payments s2 i)) r s2 = Some s3"
      and s': "s' = emit (PaymentCompleted i (recipient (payments s3 i)) r) s3"
      by blast
    from sp have sp': "split v (platformFeeBps s) = Some (f, r)" by simp
    have inv: "(status (payments s' i) = Refunded \<longleftrightarrow> legs (RefundLeg i) s' \<noteq> []) \<and>
        (status (payments s' i) = Completed \<longleftrightarrow> legs (RefundLeg i) s' = [])"
      if "invariant s"
    proof -
      from createPayment_sound [OF gateway_at_ok run] that have "invariant s'"
        by (simp add: sound_def)
      with a(4) b(3) have "ledger_ok s' i" by (simp add: invariant_def)
      with b(2) show ?thesis by (auto simp: ledger_ok_def)
    qed
    have quiet: "status (payments s' i) = Completed \<and> paymentCounter s' = i \<and>
         userPayments s' sender = userPayments s sender @ [i]"
      if nc: "no_callbacks env"
    proof -
      from pay_fee_Inr [OF fee] gateway_at_no_callbacks [OF nc]
      have s2: "s2 = after_fee i f (set_status i Completed ?t)"
        by (auto simp: after_fee_def)
      from gateway_at_no_callbacks [OF nc rec]
      have s3: "s3 = credit (RecipientLeg i) (recipient (payments s2 i)) r s2" .
      show ?thesis by (simp add: s' s3 s2)
    qed
    from a b sp' fee inv quiet show ?thesis by auto
  qed
  from fail ok show ?thesis by blast
qed

theorem createPayment_checks_and_effects_witness:
  "createPayment (gateway_at quiet 2) 10 1000 1700000000 0 [] (deposit 10 1000 demo0) =
     Inl InvalidRecipient \<and>
   createPayment (gateway_at quiet 2) 10 1000 1700000000 10 [] (deposit 10 1000 demo0) =
     Inl CannotPayYourself \<and>
   createPayment (gateway_at quiet 2) 10 0 1700000000 11 [] (deposit 10 0 demo0) =
     Inl AmountMustBePositive \<and>
   createPayment (gateway_at quiet 2) 10 1000 1700000000 11 [] (deposit 10 1000 demo0) =
     Inr (1, demo1) \<and>
   paymentCounter (deposit 10 1000 demo0) = 0 \<and> paymentCounter demo1 = 1 \<and>
   payments demo1 1 =
     \<lparr>payment_id = 1, payer = 10, recipient = 11, amount = 1000, timestamp = 1700000000,
      status = Completed, description = [], exists = True\<rparr> \<and>
   userPayments demo1 10 = userPayments (deposit 10 1000 demo0) 10 @ [1] \<and>
   invariant (deposit 10 1000 demo0) \<and> no_callbacks quiet \<and>
   invariant (deposit 10 20 nofee1) \<and>
   createPayment (gateway_at refunding 3) 10 20 1700000000 11 [] (deposit 10 20 nofee1) =
     Inr (2, swift2) \<and>
   legs (RefundLeg 2) swift2 = [(RefundLeg 2, 10, 20)] \<and>
   status (payments swift2 2) = Refunded"
proof -
  let ?d = "deposit 10 1000 demo0"
  let ?e = "deposit 10 20 nofee1"
  have run2: "createPayment (gateway_at refunding 3) 10 20 1700000000 11 [] ?e = Inr (2, swift2)"
    using exec_create_Inr [OF swift2_run] by (simp add: refunding_def nofee1_eq)
  have inv2: "invariant ?e" using reachable_invariant [OF reachable_nofee1] by simp
  have l2: "legs (RefundLeg 2) swift2 = [(RefundLeg 2, 10, 20)]"
    by (simp add: swift2_eq legs_def)
  from createPayment_checks_and_effects [where env = refunding and n = 3 and sender = 10
      and v = 20 and now = 1700000000 and ?recipient0.0 = 11 and d = "[]" and s = ?e
      and i = 2 and s' = swift2] run2 inv2
  have "status (payments swift2 2) = Refunded \<longleftrightarrow> legs (RefundLeg 2) swift2 \<noteq> []"
    by blast
  with l2 have w6: "status (payments swift2 2) = Refunded" by simp
  have run: "createPayment (gateway_at quiet 2) 10 1000 1700000000 11 [] ?d = Inr (1, demo1)"
    using exec_create_Inr [OF demo1_run] by (simp add: quiet_def demo0_eq)
  have inv: "invariant ?d" using reachable_invariant [OF reachable_demo0] by simp
  have st: "status (payments demo1 1) = Completed" by (simp add: demo1_eq)
  from createPayment_checks_and_effects [where ?recipient0.0 = 0 and sender = 10]
  have w1: "createPayment (gateway_at quiet 2) 10 1000 1700000000 0 [] ?d = Inl InvalidRecipient"
    by blast
  from createPayment_checks_and_effects [where ?recipient0.0 = 10 and sender = 10]
  have w2: "createPayment (gateway_at quiet 2) 10 1000 1700000000 10 [] ?d = Inl CannotPayYourself"
    by simp
  from createPayment_checks_and_effects [where ?recipient0.0 = 11 and sender = 10 and v = 0]
  have w3: "createPayment (gateway_at quiet 2) 10 0 1700000000 11 [] (deposit 10 0 demo0) =
     Inl AmountMustBePositive"
    by simp
  from createPayment_checks_and_effects [where env = quiet and n = 2 and sender = 10
      and v = 1000 and now = 1700000000 and ?recipient0.0 = 11 and d = "[]" and s = ?d
      and i = 1 and s' = demo1] run no_callbacks_quiet
  have w4: "1 = paymentCounter ?d + 1 \<and>
      payments demo1 1 =
        \<lparr>payment_id = 1, payer = 10, recipient = 11, amount = 1000,
         timestamp = 1700000000, status = status (payments demo1 1), description = [],
         exists = True\<rparr> \<and>
      paymentCounter demo1 = 1 \<and> userPayments demo1 10 = userPayments ?d 10 @ [1]"
    by blast
  with st have w5: "paymentCounter ?d = 0 \<and>
      payments demo1 1 =
        \<lparr>payment_id = 1, payer = 10, recipient = 11, amount = 1000,
         timestamp = 1700000000, status = Completed, description = [],
         exists = True\<rparr> \<and>
      paymentCounter demo1 = 1 \<and> userPayments demo1 10 = userPayments ?d 10 @ [1]"
    by simp
  from w1 w2 w3 w5 w6 run run2 inv inv2 l2 no_callbacks_quiet show ?thesis by blast
qed

subsection \<open>C9: the cap on the fee rate\<close>

text \<open>
  C9: \<^verbatim>\<open>updatePlatformFee\<close> called by the owner reverts with "Fee cannot exceed 10%"
  exactly when the new rate is above 1000 and otherwise stores it; so 1001 is refused
  and 1000 accepted; in every reachable state the rate is at most 1000; and in any
  state that holds the new rate, a payment that is created is split at that rate.
\<close>

theorem updatePlatformFee_cap:
  assumes "sender = owner s"
  shows
    "(exec env n sender (UpdatePlatformFee newFeeBps) s = Inl FeeCannotExceed10Percent
        \<longleftrightarrow> 1000 < newFeeBps) \<and>
     (newFeeBps \<le> 1000 \<longrightarrow>
        exec env n sender (UpdatePlatformFee newFeeBps) s = Inr (s\<lparr>platformFeeBps := newFeeBps\<rparr>)) \<and>
     exec env n sender (UpdatePlatformFee 1001) s = Inl FeeCannotExceed10Percent \<and>
     exec env n sender (UpdatePlatformFee 1000) s = Inr (s\<lparr>platformFeeBps := 1000\<rparr>) \<and>
     (reachable s \<longrightarrow> platformFeeBps s \<le> 1000) \<and>
     (\<forall>t env' n' a rc d v t'.
        platformFeeBps t = newFeeBps \<and> exec env' n' a (CreatePayment rc d v) t = Inr t' \<longrightarrow>
        (\<exists>f r. split v newFeeBps = Some (f, r) \<and>
           legs (FeeLeg (paymentCounter t + 1)) t' =
             legs (FeeLeg (paymentCounter t + 1)) t @
               (if 0 < f \<and> feeRecipient t \<noteq> 0
                then [(FeeLeg (paymentCounter t + 1), feeRecipient t, f)] else []) \<and>
           legs (RecipientLeg (paymentCounter t + 1)) t' =
             legs (RecipientLeg (paymentCounter t + 1)) t @
               [(RecipientLeg (paymentCounter t + 1), rc, r)]))"
proof -
  have 1: "(exec env n sender (UpdatePlatformFee b) s = Inl FeeCannotExceed10Percent
        \<longleftrightarrow> 1000 < b) \<and>
     (b \<le> 1000 \<longrightarrow> exec env n sender (UpdatePlatformFee b) s = Inr (s\<lparr>platformFeeBps := b\<rparr>))"
    for b
    using assms by (auto simp: exec_updatePlatformFee updatePlatformFee_def)
  have 2: "platformFeeBps s \<le> 1000" if "reachable s"
    using reachable_invariant [OF that] by (simp add: invariant_def)
  have 3: "\<exists>f r. split v newFeeBps = Some (f, r) \<and>
           legs (FeeLeg (paymentCounter t + 1)) t' =
             legs (FeeLeg (paymentCounter t + 1)) t @
               (if 0 < f \<and> feeRecipient t \<noteq> 0
                then [(FeeLeg (paymentCounter t + 1), feeRecipient t, f)] else []) \<and>
           legs (RecipientLeg (paymentCounter t + 1)) t' =
             legs (RecipientLeg (paymentCounter t + 1)) t @
               [(RecipientLeg (paymentCounter t + 1), rc, r)]"
    if t: "platformFeeBps t = newFeeBps" and run: "exec env' n' a (CreatePayment rc d v) t = Inr t'"
    for t env' n' a rc d v t'
  proof -
    from exec_create_Inr [OF run] have c:
      "createPayment (gateway_at env' n') a v (block_timestamp env') rc d (deposit a v t) =
         Inr (paymentCounter t + 1, t')" by simp
    from createPayment_trace [OF gateway_at_ok c] t show ?thesis by auto
  qed
  have 4: "exec env n sender (UpdatePlatformFee 1001) s = Inl FeeCannotExceed10Percent"
    using 1 [of 1001] by simp
  have 5: "exec env n sender (UpdatePlatformFee 1000) s = Inr (s\<lparr>platformFeeBps := 1000\<rparr>)"
    using 1 [of 1000] by simp
  from 1 [of newFeeBps] 4 5 2 3 show ?thesis by (intro conjI allI impI) blast+
qed

theorem updatePlatformFee_cap_witness:
  "1 = owner demo0 \<and>
   exec quiet 2 1 (UpdatePlatformFee 1001) demo0 = Inl FeeCannotExceed10Percent \<and>
   exec quiet 2 1 (UpdatePlatformFee 1000) demo0 = Inr tenth0 \<and>
   reachable demo0 \<and> platformFeeBps demo0 \<le> 1000 \<and>
   platformFeeBps tenth0 = 1000 \<and>
   exec quiet 2 10 (CreatePayment 11 [] 1000) tenth0 = Inr tenth1 \<and>
   split 1000 1000 = Some (100, 900) \<and>
   legs (FeeLeg 1) tenth1 = [(FeeLeg 1, 2, 100)] \<and>
   legs (RecipientLeg 1) tenth1 = [(RecipientLeg 1, 11, 900)]"
proof -
  have o: "1 = owner demo0" by (simp add: demo0_eq)
  have t0: "demo0\<lparr>platformFeeBps := 1000\<rparr> = tenth0" by (simp add: demo0_eq tenth0_eq)
  have sp: "split 1000 1000 = Some (100, 900)"
    by (simp add: split_def checked_mul_def checked_sub_def uint256_max_def)
  have l: "legs (FeeLeg 1) tenth1 = [(FeeLeg 1, 2, 100)]"
    "legs (RecipientLeg 1) tenth1 = [(RecipientLeg 1, 11, 900)]"
    "platformFeeBps tenth0 = 1000"
    by (simp_all add: tenth1_eq tenth0_eq legs_def)
  from updatePlatformFee_cap [OF o, of quiet 2 1000] t0 reachable_demo0 tenth1_run sp l o
  show ?thesis by simp
qed

subsection \<open>C10: when the fee leg is issued\<close>


end
